(* ===== verification/Prelude.thy ===== *)
theory Prelude
  imports Complex_Main "HOL-Library.Monad_Syntax"
begin

text \<open>
  Shared vocabulary of the development: the JavaScript values, numbers and
  exceptions the modelled code manipulates, the option monad in which internal
  assertions are threaded, and the generic lemmas the components use.

  \<^item> \<open>js_value\<close>: the values that travel through error and reason slots.
  \<^item> \<open>number\<close>: the JavaScript number type with \<open>NaN\<close> and the infinities; the
    finite doubles are exact rationals (rounding is not modelled).
  \<^item> \<open>js_assert\<close>: \<^verbatim>\<open>assert\<close> of \<^verbatim>\<open>ext/web/00_infra.js\<close>. A computation of type
    \<open>'a option\<close> is \<open>None\<close> when an internal assertion failed or \<^verbatim>\<open>undefined\<close> was
    called as a function, so that \<open>f s = Some t\<close> says that neither happened.
\<close>

named_theorems js_defs \<open>definitions unfolded when a component is evaluated\<close>

section \<open>Values\<close>

datatype js_value =
    JUndefined
  | JValue nat
  | JTypeError string
  | JRangeError string
  | JDOMException string

datatype number = NaN | NegInfinity | Fin rat | PosInfinity

definition js_sub :: "number \<Rightarrow> number \<Rightarrow> number" where
  "js_sub a b =
     (case (a, b) of
        (NaN, _) \<Rightarrow> NaN
      | (_, NaN) \<Rightarrow> NaN
      | (Fin x, Fin y) \<Rightarrow> Fin (x - y)
      | (Fin _, PosInfinity) \<Rightarrow> NegInfinity
      | (Fin _, NegInfinity) \<Rightarrow> PosInfinity
      | (PosInfinity, PosInfinity) \<Rightarrow> NaN
      | (PosInfinity, _) \<Rightarrow> PosInfinity
      | (NegInfinity, NegInfinity) \<Rightarrow> NaN
      | (NegInfinity, _) \<Rightarrow> NegInfinity)"

definition js_add :: "number \<Rightarrow> number \<Rightarrow> number" where
  "js_add a b =
     (case (a, b) of
        (NaN, _) \<Rightarrow> NaN
      | (_, NaN) \<Rightarrow> NaN
      | (Fin x, Fin y) \<Rightarrow> Fin (x + y)
      | (Fin _, PosInfinity) \<Rightarrow> PosInfinity
      | (Fin _, NegInfinity) \<Rightarrow> NegInfinity
      | (PosInfinity, NegInfinity) \<Rightarrow> NaN
      | (PosInfinity, _) \<Rightarrow> PosInfinity
      | (NegInfinity, PosInfinity) \<Rightarrow> NaN
      | (NegInfinity, _) \<Rightarrow> NegInfinity)"

definition js_less :: "number \<Rightarrow> number \<Rightarrow> bool" where
  "js_less a b =
     (case (a, b) of
        (NaN, _) \<Rightarrow> False
      | (_, NaN) \<Rightarrow> False
      | (Fin x, Fin y) \<Rightarrow> x < y
      | (PosInfinity, _) \<Rightarrow> False
      | (_, PosInfinity) \<Rightarrow> True
      | (_, NegInfinity) \<Rightarrow> False
      | (NegInfinity, _) \<Rightarrow> True)"

definition js_le :: "number \<Rightarrow> number \<Rightarrow> bool" where
  "js_le a b = (a \<noteq> NaN \<and> b \<noteq> NaN \<and> \<not> js_less b a)"

lemma js_sub_simps [simp]:
  "js_sub (Fin x) (Fin y) = Fin (x - y)"
  "js_sub PosInfinity (Fin y) = PosInfinity"
  "js_sub NaN b = NaN"
  by (simp_all add: js_sub_def)

lemma js_add_simps [simp]:
  "js_add (Fin x) (Fin y) = Fin (x + y)"
  "js_add NaN b = NaN"
  by (simp_all add: js_add_def)

lemma js_less_simps [simp]:
  "js_less (Fin x) (Fin y) = (x < y)"
  "js_less NaN b = False"
  "js_less a NaN = False"
  "js_less PosInfinity b = False"
  "js_less (Fin x) PosInfinity"
  "\<not> js_less (Fin x) NegInfinity"
  "js_less NegInfinity (Fin x)"
  by (simp_all add: js_less_def split: number.splits)

lemma js_le_simps [simp]:
  "js_le (Fin x) (Fin y) = (x \<le> y)"
  "\<not> js_le NaN b"
  "\<not> js_le a NaN"
  "\<not> js_le PosInfinity (Fin y)"
  "js_le (Fin x) PosInfinity"
  "js_le PosInfinity PosInfinity"
  by (auto simp: js_le_def)

section \<open>Assertions\<close>

definition js_assert :: "bool \<Rightarrow> unit option" where
  "js_assert cond = (if cond then Some () else None)"

definition call_defined :: "bool \<Rightarrow> unit option" where
  \<comment> \<open>calling a slot that holds \<^verbatim>\<open>undefined\<close> throws a TypeError\<close>
  "call_defined present = (if present then Some () else None)"

lemma js_assert_True [simp]: "js_assert True = Some ()"
  and js_assert_False [simp]: "js_assert False = None"
  by (simp_all add: js_assert_def)

lemma js_assert_eq_Some [simp]: "js_assert b = Some u \<longleftrightarrow> b"
  by (simp add: js_assert_def)

lemma call_defined_True [simp]: "call_defined True = Some ()"
  and call_defined_False [simp]: "call_defined False = None"
  by (simp_all add: call_defined_def)

lemma call_defined_eq_Some [simp]: "call_defined b = Some u \<longleftrightarrow> b"
  by (simp add: call_defined_def)

section \<open>Lists and options\<close>

definition opt_list :: "'a option \<Rightarrow> 'a list" where
  "opt_list y = (case y of None \<Rightarrow> [] | Some x \<Rightarrow> [x])"

lemma opt_list_simps [simp]:
  "opt_list None = []" "opt_list (Some x) = [x]"
  by (simp_all add: opt_list_def)

lemma set_opt_list [simp]: "set (opt_list y) = set_option y"
  by (cases y) simp_all

text \<open>Reading off a component of a result that is known to be a success.\<close>

lemma observe:
  assumes "map_option (map_sum id f) r = Some (Inr v)"
  obtains s where "r = Some (Inr s)" "f s = v"
proof -
  obtain x where x: "r = Some x" "map_sum id f x = Inr v" using assms by (cases r) simp_all
  then show thesis using that by (cases x) simp_all
qed

end
