(* ===== verification/Queues.thy ===== *)
theory Queues
  imports Prelude
begin

text \<open>
  The contract of a FIFO queue and the first of the two queues of the runtime.

  \<^item> \<open>fifo_queue\<close>: the contract a client relies on, as a locale: what the queue holds
    after each operation, in terms of the list of its values.
  \<^item> \<open>Queue\<close>: the singly linked list of \<^verbatim>\<open>ext/web/06_streams.js\<close>, over an explicit
    store of nodes (an address is an index; nodes are never freed).
  \<^verbatim>\<open>Fixed_Queue\<close> has the other one.
\<close>

unbundle bit_operations_syntax

section \<open>The contract of a queue\<close>

locale fifo_queue =
  fixes new :: "'q"
    and enq :: "'a \<Rightarrow> 'q \<Rightarrow> 'q option"
    and deq :: "'q \<Rightarrow> ('a option \<times> 'q) option"
    and contents :: "'q \<Rightarrow> 'a list"
    and invar :: "'q \<Rightarrow> bool"
  assumes new_invar: "invar new"
    and new_contents: "contents new = []"
    and enq_ok: "invar q \<Longrightarrow> \<exists>q'. enq x q = Some q' \<and> invar q' \<and> contents q' = contents q @ [x]"
    and deq_empty: "invar q \<Longrightarrow> contents q = [] \<Longrightarrow> \<exists>q'. deq q = Some (None, q') \<and> invar q' \<and> contents q' = []"
    and deq_cons: "invar q \<Longrightarrow> contents q = x # xs \<Longrightarrow>
          \<exists>q'. deq q = Some (Some x, q') \<and> invar q' \<and> contents q' = xs"

text \<open>A sequence of operations, run on an implementation and on the list of its values.\<close>

datatype 'a queue_op = Enqueue 'a | Dequeue

primrec run_queue :: "('a \<Rightarrow> 'q \<Rightarrow> 'q option) \<Rightarrow> ('q \<Rightarrow> ('a option \<times> 'q) option) \<Rightarrow>
    'a queue_op list \<Rightarrow> 'q \<Rightarrow> ('a option list \<times> 'q) option" where
  "run_queue enq deq [] q = Some ([], q)"
| "run_queue enq deq (x # ops) q =
     (case x of
        Enqueue a \<Rightarrow> Option.bind (enq a q) (run_queue enq deq ops)
      | Dequeue \<Rightarrow> do {
          (r, q) \<leftarrow> deq q;
          (rs, q) \<leftarrow> run_queue enq deq ops q;
          Some (r # rs, q)
        })"

fun run_list :: "'a queue_op list \<Rightarrow> 'a list \<Rightarrow> 'a option list \<times> 'a list" where
  "run_list [] xs = ([], xs)"
| "run_list (Enqueue a # ops) xs = run_list ops (xs @ [a])"
| "run_list (Dequeue # ops) [] = (let (rs, ys) = run_list ops [] in (None # rs, ys))"
| "run_list (Dequeue # ops) (x # xs) = (let (rs, ys) = run_list ops xs in (Some x # rs, ys))"

context fifo_queue
begin

lemma run_ok:
  "invar q \<Longrightarrow> \<exists>q'. run_queue enq deq ops q = Some (fst (run_list ops (contents q)), q') \<and> invar q' \<and>
     contents q' = snd (run_list ops (contents q))"
proof (induction ops arbitrary: q)
  case Nil
  then show ?case by simp
next
  case (Cons x ops)
  show ?case
  proof (cases x)
    case (Enqueue a)
    obtain q1 where "enq a q = Some q1" "invar q1" "contents q1 = contents q @ [a]"
      using enq_ok [OF Cons.prems] by blast
    then show ?thesis using Cons.IH [of q1] Enqueue by simp
  next
    case Dequeue
    show ?thesis
    proof (cases "contents q")
      case Nil
      obtain q1 where "deq q = Some (None, q1)" "invar q1" "contents q1 = []"
        using deq_empty [OF Cons.prems Nil] by blast
      then show ?thesis using Cons.IH [of q1] Dequeue Nil by (auto split: prod.splits)
    next
      case (Cons y ys)
      obtain q1 where "deq q = Some (Some y, q1)" "invar q1" "contents q1 = ys"
        using deq_cons [OF Cons.prems Cons] by blast
      then show ?thesis using Cons.IH [of q1] Dequeue Cons by (auto split: prod.splits)
    qed
  qed
qed

lemma new_run_ok:
  "\<exists>q. run_queue enq deq ops new = Some (fst (run_list ops []), q) \<and> invar q \<and> contents q = snd (run_list ops [])"
  using run_ok [OF new_invar] by (simp add: new_contents)

end

section \<open>The linked list of the streams implementation\<close>

record 'a node =
  node_value :: 'a
  node_next :: "nat option"

record 'a Queue =
  nodes :: "'a node list"
  q_head :: "nat option"
  q_tail :: "nat option"
  q_size :: nat

definition new_Queue :: "'a Queue" where
  "new_Queue = \<lparr>nodes = [], q_head = None, q_tail = None, q_size = 0\<rparr>"

definition set_next :: "nat \<Rightarrow> nat \<Rightarrow> 'a node list \<Rightarrow> 'a node list" where
  "set_next t a ns = ns[t := (ns ! t)\<lparr>node_next := Some a\<rparr>]"

definition Queue_enqueue :: "'a \<Rightarrow> 'a Queue \<Rightarrow> (nat \<times> 'a Queue) option" where
  "Queue_enqueue v q =
     (let a = length (nodes q); node = \<lparr>node_value = v, node_next = None\<rparr>
      in do {
        q' \<leftarrow>
          (if q_head q = None
           then Some (q\<lparr>nodes := nodes q @ [node], q_head := Some a, q_tail := Some a\<rparr>)
           else (case q_tail q of
                   None \<Rightarrow> None
                 | Some t \<Rightarrow> Some (q\<lparr>nodes := set_next t a (nodes q) @ [node], q_tail := Some a\<rparr>)));
        Some (q_size q + 1, q'\<lparr>q_size := q_size q + 1\<rparr>)
      })"

definition Queue_dequeue :: "'a Queue \<Rightarrow> 'a option \<times> 'a Queue" where
  "Queue_dequeue q =
     (case q_head q of
        None \<Rightarrow> (None, q)
      | Some h \<Rightarrow>
          (let q1 = (if q_head q = q_tail q then q\<lparr>q_tail := None\<rparr> else q)
           in (Some (node_value (nodes q ! h)),
               q1\<lparr>q_head := node_next (nodes q ! h), q_size := q_size q - 1\<rparr>)))"

definition Queue_peek :: "'a Queue \<Rightarrow> 'a option" where
  "Queue_peek q = (case q_head q of None \<Rightarrow> None | Some h \<Rightarrow> Some (node_value (nodes q ! h)))"

fun linked :: "'a node list \<Rightarrow> nat option \<Rightarrow> nat list \<Rightarrow> bool" where
  "linked ns p [] = (p = None)"
| "linked ns p (a # as) = (p = Some a \<and> a < length ns \<and> linked ns (node_next (ns ! a)) as)"

primrec walk :: "nat \<Rightarrow> 'a node list \<Rightarrow> nat option \<Rightarrow> 'a list" where
  "walk 0 ns p = []"
| "walk (Suc n) ns p =
     (case p of None \<Rightarrow> [] | Some a \<Rightarrow> node_value (ns ! a) # walk n ns (node_next (ns ! a)))"

definition Queue_contents :: "'a Queue \<Rightarrow> 'a list" where
  "Queue_contents q = walk (q_size q) (nodes q) (q_head q)"

definition Queue_inv :: "'a Queue \<Rightarrow> bool" where
  "Queue_inv q \<longleftrightarrow>
     (\<exists>as. linked (nodes q) (q_head q) as \<and> distinct as \<and> length as = q_size q \<and>
           q_tail q = (if as = [] then None else Some (last as)))"

lemma walk_linked: "linked ns p as \<Longrightarrow> walk (length as) ns p = map (\<lambda>a. node_value (ns ! a)) as"
  by (induction as arbitrary: p) auto

lemma linked_bound: "linked ns p as \<Longrightarrow> a \<in> set as \<Longrightarrow> a < length ns"
  by (induction as arbitrary: p) auto

lemma linked_append_node: "linked ns p as \<Longrightarrow> linked (ns @ [n]) p as"
  by (induction as arbitrary: p) (auto simp: nth_append)

lemma linked_snoc:
  assumes "linked ns p as" "as \<noteq> []" "distinct as" "node_next n = None"
  shows "linked (set_next (last as) (length ns) ns @ [n]) p (as @ [length ns])"
  using assms
proof (induction as arbitrary: p)
  case Nil
  then show ?case by simp
next
  case (Cons a as)
  show ?case
  proof (cases "as = []")
    case True
    with Cons.prems show ?thesis by (simp add: set_next_def nth_append)
  next
    case False
    with Cons.prems have "a \<noteq> last as" by auto
    with False Cons show ?thesis by (auto simp: set_next_def nth_append)
  qed
qed

lemma linked_hd: "linked ns (Some h) as \<Longrightarrow> \<exists>as'. as = h # as' \<and> linked ns (node_next (ns ! h)) as'"
  by (cases as) auto

lemma Queue_inv_cases:
  assumes "Queue_inv q"
  obtains as where "linked (nodes q) (q_head q) as" "distinct as" "length as = q_size q"
    "q_tail q = (if as = [] then None else Some (last as))"
    "Queue_contents q = map (\<lambda>a. node_value (nodes q ! a)) as"
  using assms walk_linked unfolding Queue_inv_def Queue_contents_def by metis

lemma Queue_enqueue_ok:
  assumes "Queue_inv q"
  shows "\<exists>q'. Queue_enqueue v q = Some (q_size q', q') \<and> Queue_inv q' \<and>
              Queue_contents q' = Queue_contents q @ [v]"
proof -
  obtain as where as: "linked (nodes q) (q_head q) as" "distinct as" "length as = q_size q"
    "q_tail q = (if as = [] then None else Some (last as))"
    "Queue_contents q = map (\<lambda>a. node_value (nodes q ! a)) as"
    using assms by (rule Queue_inv_cases)
  let ?n = "\<lparr>node_value = v, node_next = None\<rparr>"
  let ?as = "as @ [length (nodes q)]"
  define ns where "ns = (if as = [] then nodes q @ [?n]
    else set_next (last as) (length (nodes q)) (nodes q) @ [?n])"
  define q' where "q' = q\<lparr>nodes := ns, q_head := Some (hd ?as),
    q_tail := Some (length (nodes q)), q_size := q_size q + 1\<rparr>"
  have bnd: "\<forall>a \<in> set as. a < length (nodes q)" using as(1) linked_bound by blast
  have eq: "Queue_enqueue v q = Some (q_size q', q')"
    using as by (cases q; cases as) (auto simp: Queue_enqueue_def q'_def ns_def Let_def)
  have lk: "linked ns (Some (hd ?as)) ?as"
    using as(1,2) linked_snoc [OF as(1) _ as(2), of ?n]
    by (cases as) (auto simp: ns_def nth_append)
  have dist: "distinct ?as" using as(2) bnd by auto
  have inv: "Queue_inv q'"
    using lk dist as(3) unfolding Queue_inv_def q'_def by (intro exI [of _ ?as]) simp
  have "Queue_contents q' = map (\<lambda>a. node_value (ns ! a)) ?as"
    using walk_linked [OF lk] as(3) by (simp add: Queue_contents_def q'_def)
  also have "\<dots> = Queue_contents q @ [v]"
    using bnd as(5) by (auto simp: ns_def set_next_def nth_append nth_list_update)
  finally show ?thesis using eq inv by blast
qed

lemma Queue_dequeue_ok:
  assumes "Queue_inv q"
  shows "case Queue_contents q of
           [] \<Rightarrow> Queue_dequeue q = (None, q)
         | x # xs \<Rightarrow> (\<exists>q'. Queue_dequeue q = (Some x, q') \<and> Queue_inv q' \<and> Queue_contents q' = xs)"
proof -
  obtain as where as: "linked (nodes q) (q_head q) as" "distinct as" "length as = q_size q"
    "q_tail q = (if as = [] then None else Some (last as))"
    "Queue_contents q = map (\<lambda>a. node_value (nodes q ! a)) as"
    using assms by (rule Queue_inv_cases)
  show ?thesis
  proof (cases as)
    case Nil
    with as show ?thesis by (simp add: Queue_dequeue_def)
  next
    case (Cons h as')
    let ?q = "snd (Queue_dequeue q)"
    have lk: "linked (nodes q) (node_next (nodes q ! h)) as'" and h: "q_head q = Some h"
      using as(1) Cons by auto
    have tl: "(q_head q = q_tail q) = (as' = [])"
      using as(2,4) h Cons by auto
    have q: "nodes ?q = nodes q" "q_head ?q = node_next (nodes q ! h)" "q_size ?q = length as'"
      "q_tail ?q = (if as' = [] then None else Some (last as'))"
      "fst (Queue_dequeue q) = Some (node_value (nodes q ! h))"
      using h tl as(3,4) Cons by (auto simp: Queue_dequeue_def Let_def)
    have "Queue_inv ?q"
      using lk as(2) Cons q unfolding Queue_inv_def by (intro exI [of _ as']) simp
    moreover have "Queue_contents ?q = map (\<lambda>a. node_value (nodes q ! a)) as'"
      using walk_linked [OF lk] q by (simp add: Queue_contents_def)
    ultimately show ?thesis using as(5) Cons q(5) by (cases "Queue_dequeue q") auto
  qed
qed

lemma Queue_peek_ok:
  "Queue_inv q \<Longrightarrow> Queue_peek q = (case Queue_contents q of [] \<Rightarrow> None | x # _ \<Rightarrow> Some x)"
  by (erule Queue_inv_cases, cases "q_head q")
     (auto simp: Queue_peek_def dest: linked_hd split: list.splits elim: linked.elims)

lemma Queue_size_ok: "Queue_inv q \<Longrightarrow> q_size q = length (Queue_contents q)"
  by (erule Queue_inv_cases) simp

interpretation linked_queue: fifo_queue new_Queue
  "\<lambda>v q. map_option snd (Queue_enqueue v q)" "\<lambda>q. Some (Queue_dequeue q)" Queue_contents Queue_inv
proof unfold_locales
  show "Queue_inv new_Queue" "Queue_contents new_Queue = []"
    by (auto simp: Queue_inv_def Queue_contents_def new_Queue_def)
next
  fix q :: "'a Queue" and x
  assume "Queue_inv q"
  then show "\<exists>q'. map_option snd (Queue_enqueue x q) = Some q' \<and> Queue_inv q' \<and>
               Queue_contents q' = Queue_contents q @ [x]"
    using Queue_enqueue_ok [of q x] by force
next
  fix q :: "'a Queue"
  assume "Queue_inv q" "Queue_contents q = []"
  then show "\<exists>q'. Some (Queue_dequeue q) = Some (None, q') \<and> Queue_inv q' \<and> Queue_contents q' = []"
    using Queue_dequeue_ok [of q] by auto
next
  fix q :: "'a Queue" and x xs
  assume "Queue_inv q" "Queue_contents q = x # xs"
  then show "\<exists>q'. Some (Queue_dequeue q) = Some (Some x, q') \<and> Queue_inv q' \<and> Queue_contents q' = xs"
    using Queue_dequeue_ok [of q] by auto
qed

text \<open>
  C8. The linked list behind the stream queues is a FIFO queue: for any interleaving of
  enqueues and dequeues on a new \<^verbatim>\<open>Queue\<close> no null pointer is followed, every dequeue returns
  the oldest value (\<^verbatim>\<open>undefined\<close> when there is none), and \<^verbatim>\<open>size\<close> is the number of values left.
\<close>

theorem linked_queue_is_fifo:
  "\<exists>q. run_queue (\<lambda>x q. map_option snd (Queue_enqueue x q)) (\<lambda>q. Some (Queue_dequeue q)) ops new_Queue =
        Some (fst (run_list ops []), q) \<and>
      q_size q = length (snd (run_list ops []))"
  using linked_queue.new_run_ok [of ops] Queue_size_ok by fastforce

end
