(* ===== verification/Fixed_Queue.thy ===== *)
theory Fixed_Queue
  imports Queues
begin

text \<open>
  \<^verbatim>\<open>ext/node/polyfills/internal/fixed_queue.ts\<close>: a queue as a singly linked list of
  circular buffers of \<open>kSize\<close> cells. A buffer is an object in a store (\<open>bufs\<close>, the
  address is the index); \<^verbatim>\<open>undefined\<close> in a cell is \<open>None\<close>, \<^verbatim>\<open>null\<close> as a result is \<open>None\<close>.
  The queue is an interpretation of \<open>fifo_queue\<close> on the values other than
  \<^verbatim>\<open>undefined\<close>, which the next-tick queue never pushes.
\<close>

definition kSize :: nat where "kSize = 2048"
definition kMask :: nat where "kMask = kSize - 1"

record 'a FixedCircularBuffer =
  bottom :: nat
  top :: nat
  cells :: "'a option list"
  fcb_next :: "nat option"

definition new_FixedCircularBuffer :: "'a FixedCircularBuffer" where
  "new_FixedCircularBuffer = \<lparr>bottom = 0, top = 0, cells = replicate kSize None, fcb_next = None\<rparr>"

definition fcb_isEmpty :: "'a FixedCircularBuffer \<Rightarrow> bool" where
  "fcb_isEmpty b = (top b = bottom b)"

definition fcb_isFull :: "'a FixedCircularBuffer \<Rightarrow> bool" where
  "fcb_isFull b = ((top b + 1) AND kMask = bottom b)"

definition fcb_push :: "'a option \<Rightarrow> 'a FixedCircularBuffer \<Rightarrow> 'a FixedCircularBuffer" where
  "fcb_push data b = b\<lparr>cells := (cells b)[top b := data], top := (top b + 1) AND kMask\<rparr>"

definition fcb_shift :: "'a FixedCircularBuffer \<Rightarrow> 'a option \<times> 'a FixedCircularBuffer" where
  "fcb_shift b =
     (case cells b ! bottom b of
        None \<Rightarrow> (None, b)
      | Some x \<Rightarrow> (Some x, b\<lparr>cells := (cells b)[bottom b := None], bottom := (bottom b + 1) AND kMask\<rparr>))"

record 'a FixedQueue =
  bufs :: "'a FixedCircularBuffer list"
  fq_head :: nat
  fq_tail :: nat

definition new_FixedQueue :: "'a FixedQueue" where
  "new_FixedQueue = \<lparr>bufs = [new_FixedCircularBuffer], fq_head = 0, fq_tail = 0\<rparr>"

definition FixedQueue_isEmpty :: "'a FixedQueue \<Rightarrow> bool" where
  "FixedQueue_isEmpty q = fcb_isEmpty (bufs q ! fq_head q)"

definition FixedQueue_push :: "'a option \<Rightarrow> 'a FixedQueue \<Rightarrow> 'a FixedQueue" where
  "FixedQueue_push data q =
     (let h = fq_head q;
          q1 = (if fcb_isFull (bufs q ! h)
                then (let a = length (bufs q) in
                  q\<lparr>bufs := (bufs q)[h := (bufs q ! h)\<lparr>fcb_next := Some a\<rparr>] @ [new_FixedCircularBuffer],
                    fq_head := a\<rparr>)
                else q)
      in q1\<lparr>bufs := (bufs q1)[fq_head q1 := fcb_push data (bufs q1 ! fq_head q1)]\<rparr>)"

definition FixedQueue_shift :: "'a FixedQueue \<Rightarrow> 'a option \<times> 'a FixedQueue" where
  "FixedQueue_shift q =
     (let t = fq_tail q; (r, b) = fcb_shift (bufs q ! t); q1 = q\<lparr>bufs := (bufs q)[t := b]\<rparr>
      in (r, case fcb_next b of
               Some n \<Rightarrow> if fcb_isEmpty b then q1\<lparr>fq_tail := n\<rparr> else q1
             | None \<Rightarrow> q1))"

section \<open>One circular buffer\<close>

definition fcb_count :: "'a FixedCircularBuffer \<Rightarrow> nat" where
  "fcb_count b = (top b + kSize - bottom b) mod kSize"

definition fcb_contents :: "'a FixedCircularBuffer \<Rightarrow> 'a list" where
  "fcb_contents b = map (\<lambda>i. the (cells b ! ((bottom b + i) mod kSize))) [0..<fcb_count b]"

definition fcb_inv :: "'a FixedCircularBuffer \<Rightarrow> bool" where
  "fcb_inv b \<longleftrightarrow> length (cells b) = kSize \<and> bottom b < kSize \<and> top b < kSize \<and>
     (\<forall>i < kSize. (cells b ! ((bottom b + i) mod kSize) \<noteq> None) = (i < fcb_count b))"

lemma and_kMask: "n AND kMask = n mod kSize"
proof -
  have k: "kMask = mask 11" "kSize = 2 ^ 11"
    by (simp_all add: kMask_def kSize_def mask_eq_exp_minus_1)
  have "n AND mask 11 = n mod 2 ^ 11"
    unfolding take_bit_eq_mask [symmetric] take_bit_eq_mod ..
  then show ?thesis unfolding k .
qed

lemma kSize_gt [simp]: "1 < kSize" "0 < kSize" "Suc 0 < kSize" "\<not> kSize \<le> Suc 0"
  by (simp_all add: kSize_def)

lemma fcb_isEmpty_count: "fcb_inv b \<Longrightarrow> fcb_isEmpty b = (fcb_count b = 0)"
  unfolding fcb_inv_def fcb_isEmpty_def fcb_count_def
  by (auto simp: mod_eq_0_iff_dvd le_mod_geq mod_if)

lemma fcb_isEmpty_contents: "fcb_inv b \<Longrightarrow> fcb_isEmpty b = (fcb_contents b = [])"
  by (simp add: fcb_isEmpty_count fcb_contents_def)

lemma fcb_full_count: "fcb_inv b \<Longrightarrow> fcb_isFull b = (fcb_count b = kSize - 1)"
  unfolding fcb_inv_def fcb_isFull_def fcb_count_def and_kMask
  by (auto simp: mod_if split: if_splits)

lemma wrap_inj:
  "b < k \<Longrightarrow> i < k \<Longrightarrow> j < k \<Longrightarrow> ((b + i) mod k = (b + j) mod k) = (i = (j::nat))"
  by (auto simp: mod_if split: if_splits)

lemma wrap_onto:
  assumes "b < k" "t < k"
  shows "(b + (t + k - b) mod k) mod k = (t::nat)"
  using assms by (auto simp: mod_if split: if_splits)

lemma fcb_push_ok:
  assumes "fcb_inv b" "\<not> fcb_isFull b"
  shows "fcb_inv (fcb_push (Some x) b) \<and> fcb_contents (fcb_push (Some x) b) = fcb_contents b @ [x] \<and>
         \<not> fcb_isEmpty (fcb_push (Some x) b) \<and> fcb_next (fcb_push (Some x) b) = fcb_next b"
proof -
  let ?b = "fcb_push (Some x) b" and ?n = "fcb_count b"
  have b: "length (cells b) = kSize" "bottom b < kSize" "top b < kSize"
    and c: "\<And>i. i < kSize \<Longrightarrow> (cells b ! ((bottom b + i) mod kSize) \<noteq> None) = (i < ?n)"
    using assms(1) by (auto simp: fcb_inv_def)
  have "?n < kSize" by (simp add: fcb_count_def)
  moreover have "?n \<noteq> kSize - 1" using assms fcb_full_count by blast
  ultimately have n: "Suc ?n < kSize" by linarith
  have t: "top b = (bottom b + ?n) mod kSize"
    using wrap_onto [OF b(2,3)] by (simp add: fcb_count_def)
  have cnt: "fcb_count ?b = Suc ?n"
    using n b by (auto simp: fcb_count_def fcb_push_def and_kMask mod_if split: if_splits)
  have cell: "cells ?b ! ((bottom b + i) mod kSize) =
      (if i = ?n then Some x else cells b ! ((bottom b + i) mod kSize))" if "i < kSize" for i
    using that n b t wrap_inj [OF b(2), of ?n i]
    by (auto simp: fcb_push_def nth_list_update)
  have inv: "fcb_inv ?b"
    unfolding fcb_inv_def cnt using b c cell
    by (auto simp: fcb_push_def and_kMask less_Suc_eq)
  have "fcb_contents ?b = map (\<lambda>i. the (cells ?b ! ((bottom b + i) mod kSize))) ([0..<?n] @ [?n])"
    unfolding fcb_contents_def cnt by (simp add: fcb_push_def)
  also have "\<dots> = fcb_contents b @ [x]"
    using n by (simp add: cell fcb_contents_def)
  finally show ?thesis
    using inv cnt fcb_isEmpty_count [OF inv] by (simp add: fcb_push_def)
qed

lemma fcb_shift_ok:
  assumes "fcb_inv b"
  shows "case fcb_contents b of
           [] \<Rightarrow> fcb_shift b = (None, b)
         | x # xs \<Rightarrow> (\<exists>b'. fcb_shift b = (Some x, b') \<and> fcb_inv b' \<and> fcb_contents b' = xs \<and>
                            fcb_next b' = fcb_next b)"
proof -
  let ?n = "fcb_count b"
  have b: "length (cells b) = kSize" "bottom b < kSize" "top b < kSize"
    and c: "\<And>i. i < kSize \<Longrightarrow> (cells b ! ((bottom b + i) mod kSize) \<noteq> None) = (i < ?n)"
    using assms(1) by (auto simp: fcb_inv_def)
  have n: "?n < kSize" by (simp add: fcb_count_def)
  have c0: "(cells b ! bottom b \<noteq> None) = (0 < ?n)" using c [of 0] b by simp
  show ?thesis
  proof (cases "?n = 0")
    case True
    then show ?thesis using c0 by (simp add: fcb_contents_def fcb_shift_def)
  next
    case False
    then obtain x where x: "cells b ! bottom b = Some x" using c0 by auto
    let ?b = "snd (fcb_shift b)" and ?m = "fcb_count b - 1"
    have bot: "bottom ?b = (bottom b + 1) mod kSize" and cl: "cells ?b = (cells b)[bottom b := None]"
      and nx: "fcb_next ?b = fcb_next b" and tp: "top ?b = top b" and r: "fcb_shift b = (Some x, ?b)"
      using x by (simp_all add: fcb_shift_def and_kMask)
    have cnt: "fcb_count ?b = ?m"
      using False b unfolding fcb_count_def bot tp by (auto simp: mod_if split: if_splits)
    have pos: "(bottom ?b + i) mod kSize = (bottom b + Suc i) mod kSize" for i
      by (simp add: bot mod_simps)
    have inv: "fcb_inv ?b"
    proof -
      have "(cells ?b ! ((bottom ?b + i) mod kSize) \<noteq> None) = (i < ?m)" if i: "i < kSize" for i
      proof (cases "Suc i = kSize")
        case True
        then have "(bottom b + Suc i) mod kSize = bottom b" using b(2) by simp
        then show ?thesis using True n b unfolding pos cl by simp
      next
        case False
        with i have s: "Suc i < kSize" by simp
        have "(bottom b + Suc i) mod kSize \<noteq> (bottom b + 0) mod kSize"
          using wrap_inj [OF b(2) s, of 0] by simp
        then have "(bottom b + Suc i) mod kSize \<noteq> bottom b" using b(2) by simp
        then show ?thesis using c [OF s] unfolding pos cl by auto
      qed
      then show ?thesis unfolding fcb_inv_def cnt by (simp add: b bot tp cl)
    qed
    have up: "[0..<?n] = 0 # map Suc [0..<?m]"
      using False by (cases ?n) (simp_all add: map_Suc_upt upt_conv_Cons del: upt_Suc)
    have "cells ?b ! ((bottom b + Suc i) mod kSize) = cells b ! ((bottom b + Suc i) mod kSize)"
      if "i < ?m" for i
    proof -
      have s: "Suc i < kSize" using that n by simp
      have "(bottom b + Suc i) mod kSize \<noteq> (bottom b + 0) mod kSize"
        using wrap_inj [OF b(2) s, of 0] by simp
      then have "bottom b \<noteq> (bottom b + Suc i) mod kSize" using b(2) by simp
      then show ?thesis by (simp add: cl)
    qed
    then have "fcb_contents b = x # fcb_contents ?b"
      unfolding fcb_contents_def cnt pos up using x b by (simp add: o_def)
    with r inv nx show ?thesis by auto
  qed
qed

section \<open>The list of buffers\<close>

text \<open>
  Buffers are allocated in order and only the newest one is linked, so the chain from
  the tail to the head is the address range \<open>fq_tail..fq_head\<close>; every buffer in it but a
  single one holds at least one value.
\<close>

definition fq_chain :: "'a FixedQueue \<Rightarrow> 'a FixedCircularBuffer list" where
  "fq_chain q = drop (fq_tail q) (bufs q)"

definition FixedQueue_contents :: "'a FixedQueue \<Rightarrow> 'a list" where
  "FixedQueue_contents q = concat (map fcb_contents (fq_chain q))"

definition FixedQueue_inv :: "'a FixedQueue \<Rightarrow> bool" where
  "FixedQueue_inv q \<longleftrightarrow>
     fq_tail q \<le> fq_head q \<and> length (bufs q) = Suc (fq_head q) \<and>
     (\<forall>i < length (bufs q). fcb_next (bufs q ! i) = (if i = fq_head q then None else Some (Suc i))) \<and>
     (\<forall>b \<in> set (fq_chain q). fcb_inv b) \<and>
     (fq_tail q < fq_head q \<longrightarrow> (\<forall>b \<in> set (fq_chain q). fcb_contents b \<noteq> []))"

lemma fq_chain_split:
  assumes "FixedQueue_inv q"
  shows "fq_chain q = take (fq_head q - fq_tail q) (fq_chain q) @ [bufs q ! fq_head q]"
proof -
  have "length (fq_chain q) = Suc (fq_head q - fq_tail q)"
    using assms by (simp add: FixedQueue_inv_def fq_chain_def Suc_diff_le)
  then have "fq_chain q = take (fq_head q - fq_tail q) (fq_chain q) @ [fq_chain q ! (fq_head q - fq_tail q)]"
    by (metis append_take_drop_id id_take_nth_drop lessI take_Suc_conv_app_nth take_all order_refl)
  then show ?thesis using assms by (simp add: FixedQueue_inv_def fq_chain_def)
qed

lemma fq_chain_Cons:
  assumes "FixedQueue_inv q"
  shows "fq_chain q = bufs q ! fq_tail q # drop (Suc (fq_tail q)) (bufs q)"
  using assms by (simp add: FixedQueue_inv_def fq_chain_def Cons_nth_drop_Suc)

lemma FixedQueue_isEmpty_ok:
  assumes "FixedQueue_inv q"
  shows "FixedQueue_isEmpty q = (FixedQueue_contents q = [])"
proof (cases "fq_tail q < fq_head q")
  case True
  have "bufs q ! fq_head q \<in> set (fq_chain q)" using fq_chain_split [OF assms] by (metis in_set_conv_decomp)
  then have "fcb_contents (bufs q ! fq_head q) \<noteq> []" "fcb_inv (bufs q ! fq_head q)"
    using assms True by (auto simp: FixedQueue_inv_def)
  moreover from this have "FixedQueue_contents q \<noteq> []"
    unfolding FixedQueue_contents_def by (subst fq_chain_split [OF assms]) simp
  ultimately show ?thesis by (simp add: FixedQueue_isEmpty_def fcb_isEmpty_contents)
next
  case False
  then have "fq_tail q = fq_head q" using assms by (simp add: FixedQueue_inv_def)
  then have "fq_chain q = [bufs q ! fq_head q]"
    using fq_chain_split [OF assms] by simp
  then show ?thesis
    using assms by (simp add: FixedQueue_isEmpty_def FixedQueue_contents_def fcb_isEmpty_contents FixedQueue_inv_def)
qed

lemma fcb_next_irrelevant [simp]:
  "fcb_contents (b\<lparr>fcb_next := n\<rparr>) = fcb_contents b" "fcb_inv (b\<lparr>fcb_next := n\<rparr>) = fcb_inv b"
  by (simp_all add: fcb_contents_def fcb_inv_def fcb_count_def)

lemma new_fcb_ok:
  "fcb_inv new_FixedCircularBuffer" "fcb_contents new_FixedCircularBuffer = []"
  "\<not> fcb_isFull new_FixedCircularBuffer" "fcb_next new_FixedCircularBuffer = None"
proof -
  show inv: "fcb_inv new_FixedCircularBuffer"
    by (simp add: fcb_inv_def new_FixedCircularBuffer_def fcb_count_def)
  show "\<not> fcb_isFull new_FixedCircularBuffer"
    using kSize_gt(1) unfolding fcb_full_count [OF inv]
    by (simp add: new_FixedCircularBuffer_def fcb_count_def)
qed (simp_all add: fcb_contents_def new_FixedCircularBuffer_def fcb_count_def)

lemma fcb_full_nonempty: "fcb_inv b \<Longrightarrow> fcb_isFull b \<Longrightarrow> fcb_contents b \<noteq> []"
  using kSize_gt(1) by (simp add: fcb_full_count fcb_contents_def)

lemma drop_update_last:
  assumes "t \<le> h" "length bs = Suc h"
  shows "drop t (bs[h := b]) = take (h - t) (drop t bs) @ [b]"
proof -
  have "drop t (bs[h := b]) = (drop t bs)[h - t := b]" using assms by (simp add: drop_update_swap)
  also have "drop t bs = take (h - t) (drop t bs) @ [drop t bs ! (h - t)]"
    using assms by (metis Suc_diff_le append_Nil2 append_take_drop_id drop_all le_refl length_drop lessI
        take_Suc_conv_app_nth)
  finally show ?thesis using assms by (simp add: list_update_append)
qed

lemma FixedQueue_invI:
  assumes "fq_tail q \<le> fq_head q" "length (bufs q) = Suc (fq_head q)"
    and "\<And>i. i \<le> fq_head q \<Longrightarrow> fcb_next (bufs q ! i) = (if i = fq_head q then None else Some (Suc i))"
    and "\<And>b. b \<in> set (fq_chain q) \<Longrightarrow> fcb_inv b"
    and "\<And>b. fq_tail q < fq_head q \<Longrightarrow> b \<in> set (fq_chain q) \<Longrightarrow> fcb_contents b \<noteq> []"
  shows "FixedQueue_inv q"
  using assms unfolding FixedQueue_inv_def by (auto simp: less_Suc_eq_le)

lemma FixedQueue_push_ok:
  assumes "FixedQueue_inv q"
  shows "FixedQueue_inv (FixedQueue_push (Some x) q) \<and>
         FixedQueue_contents (FixedQueue_push (Some x) q) = FixedQueue_contents q @ [x]"
proof -
  let ?h = "fq_head q" and ?t = "fq_tail q" and ?bs = "bufs q"
  let ?hb = "?bs ! ?h" and ?pre = "take (fq_head q - fq_tail q) (fq_chain q)"
  let ?q' = "FixedQueue_push (Some x) q"
  have q: "?t \<le> ?h" "length ?bs = Suc ?h"
      "\<And>i. i < length ?bs \<Longrightarrow> fcb_next (?bs ! i) = (if i = ?h then None else Some (Suc i))"
      "\<And>b. b \<in> set (fq_chain q) \<Longrightarrow> fcb_inv b"
      "\<And>b. ?t < ?h \<Longrightarrow> b \<in> set (fq_chain q) \<Longrightarrow> fcb_contents b \<noteq> []"
    using assms by (auto simp: FixedQueue_inv_def)
  have chain: "fq_chain q = ?pre @ [?hb]" by (rule fq_chain_split [OF assms])
  have hb: "fcb_inv ?hb" using q(4) chain by (metis in_set_conv_decomp)
  have pre: "set ?pre \<subseteq> set (fq_chain q)" by (rule set_take_subset)
  have cont: "FixedQueue_contents q = concat (map fcb_contents ?pre) @ fcb_contents ?hb"
    unfolding FixedQueue_contents_def by (subst chain) simp
  show ?thesis
  proof (cases "fcb_isFull ?hb")
    case False
    note p = fcb_push_ok [OF hb False, of x]
    have q': "?q' = q\<lparr>bufs := ?bs[?h := fcb_push (Some x) ?hb]\<rparr>"
      using False by (simp add: FixedQueue_push_def Let_def)
    have chain': "fq_chain ?q' = ?pre @ [fcb_push (Some x) ?hb]"
      unfolding q' fq_chain_def using drop_update_last [OF q(1,2)] by simp
    have "FixedQueue_contents ?q' = concat (map fcb_contents ?pre) @ fcb_contents ?hb @ [x]"
      unfolding FixedQueue_contents_def chain' using p by simp
    moreover have "FixedQueue_inv ?q'"
    proof (rule FixedQueue_invI)
      show "fq_tail ?q' \<le> fq_head ?q'" "length (bufs ?q') = Suc (fq_head ?q')"
        using q(1,2) by (simp_all add: q')
      show "fcb_next (bufs ?q' ! i) = (if i = fq_head ?q' then None else Some (Suc i))"
        if "i \<le> fq_head ?q'" for i
        using that q(2) q(3) [of i] p by (auto simp: q' nth_list_update)
      show "fcb_inv b" if "b \<in> set (fq_chain ?q')" for b
        using that p q(4) pre unfolding chain' by auto
      show "fcb_contents b \<noteq> []" if "fq_tail ?q' < fq_head ?q'" "b \<in> set (fq_chain ?q')" for b
        using that p q(5) pre unfolding chain' by (auto simp: q')
    qed
    ultimately show ?thesis using cont by simp
  next
    case True
    let ?nb = "fcb_push (Some x) new_FixedCircularBuffer"
    let ?lb = "?hb\<lparr>fcb_next := Some (length ?bs)\<rparr>"
    note p = fcb_push_ok [OF new_fcb_ok(1,3), of x]
    have q': "?q' = q\<lparr>bufs := ?bs[?h := ?lb] @ [?nb], fq_head := length ?bs\<rparr>"
      using True by (simp add: FixedQueue_push_def Let_def list_update_append nth_append)
    have chain': "fq_chain ?q' = ?pre @ [?lb, ?nb]"
      unfolding q' fq_chain_def using drop_update_last [OF q(1,2)] q(1,2) by simp
    have ne: "\<forall>b \<in> set ?pre. fcb_contents b \<noteq> []"
      using q(5) pre by (cases "?t < ?h") auto
    have "FixedQueue_contents ?q' = concat (map fcb_contents ?pre) @ fcb_contents ?hb @ [x]"
      unfolding FixedQueue_contents_def chain' using p new_fcb_ok(2) by simp
    moreover have "FixedQueue_inv ?q'"
    proof (rule FixedQueue_invI)
      show "fq_tail ?q' \<le> fq_head ?q'" "length (bufs ?q') = Suc (fq_head ?q')"
        using q(1,2) by (simp_all add: q')
      show "fcb_next (bufs ?q' ! i) = (if i = fq_head ?q' then None else Some (Suc i))"
        if "i \<le> fq_head ?q'" for i
        using that q(2) q(3) [of i] p new_fcb_ok(4) by (auto simp: q' nth_list_update nth_append)
      show "fcb_inv b" if "b \<in> set (fq_chain ?q')" for b
        using that p q(4) pre hb unfolding chain' by auto
      show "fcb_contents b \<noteq> []" if "b \<in> set (fq_chain ?q')" for b
        using that p ne fcb_full_nonempty [OF hb True] unfolding chain' by auto
    qed
    ultimately show ?thesis using cont by simp
  qed
qed

lemma FixedQueue_shift_ok:
  assumes "FixedQueue_inv q"
  shows "case FixedQueue_contents q of
           [] \<Rightarrow> FixedQueue_shift q = (None, q)
         | x # xs \<Rightarrow> (\<exists>q'. FixedQueue_shift q = (Some x, q') \<and> FixedQueue_inv q' \<and> FixedQueue_contents q' = xs)"
proof -
  let ?h = "fq_head q" and ?t = "fq_tail q" and ?bs = "bufs q"
  let ?tb = "?bs ! ?t" and ?rest = "drop (Suc (fq_tail q)) (bufs q)"
  have q: "?t \<le> ?h" "length ?bs = Suc ?h"
      "\<And>i. i < length ?bs \<Longrightarrow> fcb_next (?bs ! i) = (if i = ?h then None else Some (Suc i))"
      "\<And>b. b \<in> set (fq_chain q) \<Longrightarrow> fcb_inv b"
      "\<And>b. ?t < ?h \<Longrightarrow> b \<in> set (fq_chain q) \<Longrightarrow> fcb_contents b \<noteq> []"
    using assms by (auto simp: FixedQueue_inv_def)
  have chain: "fq_chain q = ?tb # ?rest" by (rule fq_chain_Cons [OF assms])
  have tb: "fcb_inv ?tb" using q(4) chain by simp
  have nx: "fcb_next ?tb = (if ?t = ?h then None else Some (Suc ?t))" using q(1-3) by simp
  have cont: "FixedQueue_contents q = fcb_contents ?tb @ concat (map fcb_contents ?rest)"
    unfolding FixedQueue_contents_def chain by simp
  show ?thesis
  proof (cases "fcb_contents ?tb")
    case Nil
    then have th: "?t = ?h" using q(1,5) chain by (cases "?t < ?h") auto
    then have "?rest = []" using q(2) by simp
    moreover have "fcb_shift ?tb = (None, ?tb)" using fcb_shift_ok [OF tb] Nil by simp
    ultimately show ?thesis using Nil cont nx th by (simp add: FixedQueue_shift_def)
  next
    case (Cons x xs)
    then obtain b where b: "fcb_shift ?tb = (Some x, b)" "fcb_inv b" "fcb_contents b = xs"
      "fcb_next b = fcb_next ?tb" using fcb_shift_ok [OF tb] by auto
    let ?adv = "fcb_isEmpty b \<and> ?t < ?h"
    let ?q' = "q\<lparr>bufs := ?bs[?t := b], fq_tail := (if ?adv then Suc ?t else ?t)\<rparr>"
    have r: "FixedQueue_shift q = (Some x, ?q')"
      using b(1,4) nx q(1) by (cases q) (auto simp: FixedQueue_shift_def Let_def)
    have e: "fcb_isEmpty b = (xs = [])" using fcb_isEmpty_contents b(2,3) by blast
    have chain': "fq_chain ?q' = (if ?adv then ?rest else b # ?rest)"
      using q(1,2) Cons_nth_drop_Suc [of ?t "?bs[?t := b]"] by (auto simp: fq_chain_def)
    have "FixedQueue_contents ?q' = xs @ concat (map fcb_contents ?rest)"
      unfolding FixedQueue_contents_def chain' using b(3) e by auto
    moreover have "FixedQueue_inv ?q'"
    proof (rule FixedQueue_invI)
      show "fq_tail ?q' \<le> fq_head ?q'" "length (bufs ?q') = Suc (fq_head ?q')"
        using q(1,2) by simp_all
      show "fcb_next (bufs ?q' ! i) = (if i = fq_head ?q' then None else Some (Suc i))"
        if "i \<le> fq_head ?q'" for i
        using that q(1,2) q(3) [of i] b(4) by (auto simp: nth_list_update)
      show "fcb_inv c" if "c \<in> set (fq_chain ?q')" for c
        using that q(4) b(2) chain unfolding chain' by (auto split: if_splits)
      show "fcb_contents c \<noteq> []" if "fq_tail ?q' < fq_head ?q'" "c \<in> set (fq_chain ?q')" for c
        using that q(5) b(3) e chain unfolding chain' by (auto split: if_splits)
    qed
    ultimately show ?thesis using r cont Cons by simp
  qed
qed

interpretation fixed_queue: fifo_queue new_FixedQueue
  "\<lambda>x q. Some (FixedQueue_push (Some x) q)" "\<lambda>q. Some (FixedQueue_shift q)"
  FixedQueue_contents FixedQueue_inv
proof unfold_locales
  show "FixedQueue_inv new_FixedQueue" "FixedQueue_contents new_FixedQueue = []"
    by (simp_all add: FixedQueue_inv_def FixedQueue_contents_def new_FixedQueue_def fq_chain_def new_fcb_ok)
next
  fix q :: "'a FixedQueue" and x
  assume "FixedQueue_inv q"
  then show "\<exists>q'. Some (FixedQueue_push (Some x) q) = Some q' \<and> FixedQueue_inv q' \<and>
               FixedQueue_contents q' = FixedQueue_contents q @ [x]"
    using FixedQueue_push_ok [of q x] by simp
next
  fix q :: "'a FixedQueue"
  assume "FixedQueue_inv q" "FixedQueue_contents q = []"
  then show "\<exists>q'. Some (FixedQueue_shift q) = Some (None, q') \<and> FixedQueue_inv q' \<and>
               FixedQueue_contents q' = []"
    using FixedQueue_shift_ok [of q] by auto
next
  fix q :: "'a FixedQueue" and x xs
  assume "FixedQueue_inv q" "FixedQueue_contents q = x # xs"
  then show "\<exists>q'. Some (FixedQueue_shift q) = Some (Some x, q') \<and> FixedQueue_inv q' \<and>
               FixedQueue_contents q' = xs"
    using FixedQueue_shift_ok [of q] by auto
qed

text \<open>
  C9. \<^verbatim>\<open>FixedQueue\<close> is a FIFO queue across the boundaries of its 2048-slot circular buffers: any
  interleaving of \<^verbatim>\<open>push\<close> (of defined values) and \<^verbatim>\<open>shift\<close> returns what a list would, and
  \<^verbatim>\<open>isEmpty\<close>, which looks at the head buffer only, is true exactly when nothing is left.
\<close>

theorem fixed_queue_is_fifo:
  "\<exists>q. run_queue (\<lambda>x q. Some (FixedQueue_push (Some x) q)) (\<lambda>q. Some (FixedQueue_shift q)) ops new_FixedQueue =
        Some (fst (run_list ops []), q) \<and>
      (FixedQueue_isEmpty q \<longleftrightarrow> snd (run_list ops []) = [])"
  using fixed_queue.new_run_ok [of ops] FixedQueue_isEmpty_ok by fastforce

end
