(* ===== verification/Streams_Common.thy ===== *)
theory Streams_Common
  imports Queues "HOL-Library.Multiset"
begin

text \<open>
  What readable and writable streams of \<^verbatim>\<open>ext/web/06_streams.js\<close> share.

  \<^item> \<open>Deferred\<close>: a promise with its resolving functions. A heap of deferreds is a list
    whose index is the identity of the deferred; it only grows.
  \<^item> The queue-with-sizes container: \<^verbatim>\<open>enqueueValueWithSize\<close>, \<^verbatim>\<open>dequeueValue\<close>,
    \<^verbatim>\<open>peekQueueValue\<close>, \<^verbatim>\<open>resetQueue\<close> over the linked \<open>Queue\<close>, and the same operations
    over the list of entries, which the stream models use; the refinement lemmas
    relate the two.
  \<^item> \<^verbatim>\<open>extractHighWaterMark\<close> and \<^verbatim>\<open>extractSizeAlgorithm\<close>.
\<close>

section \<open>Deferred\<close>

datatype 'v promise = Pending | Fulfilled 'v | Rejected js_value

definition Deferred_resolve :: "'v \<Rightarrow> 'v promise \<Rightarrow> 'v promise" where
  "Deferred_resolve v p = (if p \<noteq> Pending then p else Fulfilled v)"

definition Deferred_reject :: "js_value \<Rightarrow> 'v promise \<Rightarrow> 'v promise" where
  "Deferred_reject r p = (if p \<noteq> Pending then p else Rejected r)"

text \<open>How a promise returned by user code settles.\<close>

datatype outcome = Succeeded | Failed js_value

type_synonym 'v heap = "'v promise list"

definition h_new :: "'v heap \<Rightarrow> nat \<times> 'v heap" where
  "h_new h = (length h, h @ [Pending])"

definition h_resolve :: "nat \<Rightarrow> 'v \<Rightarrow> 'v heap \<Rightarrow> 'v heap" where
  "h_resolve d v h = h[d := Deferred_resolve v (h ! d)]"

definition h_reject :: "nat \<Rightarrow> js_value \<Rightarrow> 'v heap \<Rightarrow> 'v heap" where
  "h_reject d r h = h[d := Deferred_reject r (h ! d)]"

definition h_pending :: "'v heap \<Rightarrow> nat set" where
  "h_pending h = {d. d < length h \<and> h ! d = Pending}"

text \<open>A settled promise never changes, whatever is settled or allocated later.\<close>

definition h_extends :: "'v heap \<Rightarrow> 'v heap \<Rightarrow> bool" where
  "h_extends h h' \<longleftrightarrow> length h \<le> length h' \<and>
     (\<forall>d < length h. h ! d \<noteq> Pending \<longrightarrow> h' ! d = h ! d)"

lemma length_h_resolve [simp]: "length (h_resolve d v h) = length h"
  and length_h_reject [simp]: "length (h_reject d r h) = length h"
  by (simp_all add: h_resolve_def h_reject_def)

lemma nth_h_resolve:
  "i < length h \<Longrightarrow> h_resolve d v h ! i = (if i = d \<and> h ! i = Pending then Fulfilled v else h ! i)"
  by (auto simp: h_resolve_def Deferred_resolve_def nth_list_update)

lemma nth_h_reject:
  "i < length h \<Longrightarrow> h_reject d r h ! i = (if i = d \<and> h ! i = Pending then Rejected r else h ! i)"
  by (auto simp: h_reject_def Deferred_reject_def nth_list_update)

lemma h_pending_resolve [simp]: "h_pending (h_resolve d v h) = h_pending h - {d}"
  by (auto simp: h_pending_def nth_h_resolve split: if_splits)

lemma h_pending_reject [simp]: "h_pending (h_reject d r h) = h_pending h - {d}"
  by (auto simp: h_pending_def nth_h_reject split: if_splits)

lemma h_pending_append_Pending [simp]: "h_pending (h @ [Pending]) = insert (length h) (h_pending h)"
  by (auto simp: h_pending_def nth_append)

lemma h_pending_Nil [simp]: "h_pending [] = {}"
  by (simp add: h_pending_def)

lemma h_pending_bound: "d \<in> h_pending h \<Longrightarrow> d < length h"
  by (simp add: h_pending_def)

lemma h_extends_refl [simp]: "h_extends h h"
  by (simp add: h_extends_def)

lemma h_extends_trans [trans]: "h_extends h1 h2 \<Longrightarrow> h_extends h2 h3 \<Longrightarrow> h_extends h1 h3"
  by (auto simp: h_extends_def)

lemma h_extends_resolve: "h_extends h h' \<Longrightarrow> h_extends h (h_resolve d v h')"
  by (auto simp: h_extends_def nth_h_resolve)

lemma h_extends_reject: "h_extends h h' \<Longrightarrow> h_extends h (h_reject d r h')"
  by (auto simp: h_extends_def nth_h_reject)

lemma h_extends_new: "h_extends h h' \<Longrightarrow> h_extends h (h' @ [p])"
  unfolding h_extends_def by (auto simp: nth_append)

lemma h_reject_all_pending [simp]:
  "h_pending (fold (\<lambda>d. h_reject d r) ds h) = h_pending h - set ds"
  by (induction ds arbitrary: h) auto

lemma h_reject_all_length [simp]: "length (fold (\<lambda>d. h_reject d r) ds h) = length h"
  by (induction ds arbitrary: h) auto

lemma h_extends_reject_all:
  "h_extends h h' \<Longrightarrow> h_extends h (fold (\<lambda>d. h_reject d r) ds h')"
  by (induction ds arbitrary: h') (auto intro: h_extends_reject)

lemma h_resolve_all_pending [simp]:
  "h_pending (fold (\<lambda>d. h_resolve d v) ds h) = h_pending h - set ds"
  by (induction ds arbitrary: h) auto

lemma h_resolve_all_length [simp]: "length (fold (\<lambda>d. h_resolve d v) ds h) = length h"
  by (induction ds arbitrary: h) auto

lemma h_extends_resolve_all:
  "h_extends h h' \<Longrightarrow> h_extends h (fold (\<lambda>d. h_resolve d v) ds h')"
  by (induction ds arbitrary: h') (auto intro: h_extends_resolve)

lemmas h_extends_simps [simp] =
  h_extends_resolve h_extends_reject h_extends_new h_extends_reject_all h_extends_resolve_all

text \<open>
  \<open>accounted rs ws h\<close>: the pending promises of \<open>h\<close> are the requests \<open>rs\<close>, all of them
  pending, and possibly some of \<open>ws\<close>, all these deferreds being different.
\<close>

definition accounted :: "nat list \<Rightarrow> nat list \<Rightarrow> 'v heap \<Rightarrow> bool" where
  "accounted rs ws h \<longleftrightarrow>
     distinct (rs @ ws) \<and> set rs \<subseteq> h_pending h \<and> h_pending h \<subseteq> set rs \<union> set ws \<and>
     set ws \<subseteq> {..< length h}"

lemma accounted_perm:
  assumes "accounted rs ws h" "mset rs = mset rs'"
  shows "accounted rs' ws h"
proof -
  have "set rs = set rs'" using assms(2) by (rule mset_eq_setD)
  moreover have "distinct rs = distinct rs'" using assms(2) by (rule mset_eq_imp_distinct_iff)
  ultimately show ?thesis using assms(1) by (simp add: accounted_def)
qed

lemma accounted_reject_all:
  assumes "accounted rs ws h" "mset rs = mset ds + mset rs'"
  shows "accounted rs' ws (fold (\<lambda>d. h_reject d e) ds h)"
proof -
  have "accounted (ds @ rs') ws h" using assms accounted_perm [of rs ws h "ds @ rs'"] by simp
  then show ?thesis by (auto simp: accounted_def)
qed

lemma accounted_reject:
  "accounted rs ws h \<Longrightarrow> mset rs = add_mset d (mset rs') \<Longrightarrow> accounted rs' ws (h_reject d e h)"
  using accounted_reject_all [of rs ws h "[d]" rs'] by simp

lemma accounted_resolve_all:
  assumes "accounted rs ws h" "mset rs = mset ds + mset rs'"
  shows "accounted rs' ws (fold (\<lambda>d. h_resolve d v) ds h)"
proof -
  have "accounted (ds @ rs') ws h" using assms accounted_perm [of rs ws h "ds @ rs'"] by simp
  then show ?thesis by (auto simp: accounted_def)
qed

lemma accounted_resolve:
  "accounted rs ws h \<Longrightarrow> mset rs = add_mset d (mset rs') \<Longrightarrow> accounted rs' ws (h_resolve d v h)"
  using accounted_resolve_all [of rs ws h "[d]" rs'] by simp

lemma accounted_new:
  assumes "accounted rs ws h" "mset rs' = add_mset (length h) (mset rs)"
  shows "accounted rs' ws (h @ [Pending])"
proof -
  have "accounted (length h # rs) ws (h @ [Pending])"
    using assms(1) by (auto simp: accounted_def dest: h_pending_bound)
  then show ?thesis using accounted_perm [of "length h # rs" ws "h @ [Pending]" rs'] assms(2) by simp
qed

lemma accounted_settle_other:
  "accounted rs ws h \<Longrightarrow> d \<in> set ws \<Longrightarrow> accounted rs ws (h_reject d e h)"
  "accounted rs ws h \<Longrightarrow> d \<in> set ws \<Longrightarrow> accounted rs ws (h_resolve d v h)"
  by (auto simp: accounted_def)

lemma accounted_replace:
  assumes "accounted rs (us @ r # ws) h" "r \<notin> h_pending h"
  shows "accounted rs (us @ length h # ws) (h @ [Pending])"
  using assms unfolding accounted_def by (auto dest: h_pending_bound)

lemma accounted_forget:
  "accounted rs ws h \<Longrightarrow> set ws \<inter> h_pending h = {} \<Longrightarrow> accounted rs [] h"
  by (auto simp: accounted_def)

lemma accounted_new_other:
  "accounted rs ws h \<Longrightarrow> accounted rs (ws @ [length h]) (h @ [Pending])"
  unfolding accounted_def by (auto dest: h_pending_bound)

lemma accounted_not_request: "accounted rs ws h \<Longrightarrow> d \<in> set ws \<Longrightarrow> d \<notin> set rs"
  by (auto simp: accounted_def)

section \<open>Queue with sizes\<close>

definition isNonNegativeNumber :: "number \<Rightarrow> bool" where
  "isNonNegativeNumber v = js_le (Fin 0) v"

record 'v linked_container =
  lc_queue :: "('v \<times> number) Queue"
  lc_total :: number

definition dequeueValue :: "'v linked_container \<Rightarrow> ('v \<times> 'v linked_container) option" where
  "dequeueValue c = do {
     js_assert (q_size (lc_queue c) \<noteq> 0);
     (case Queue_dequeue (lc_queue c) of
        (None, _) \<Rightarrow> None
      | (Some (value, sz), q) \<Rightarrow>
          (let total = js_sub (lc_total c) sz;
               total = (if js_less total (Fin 0) then Fin 0 else total)
           in Some (value, \<lparr>lc_queue = q, lc_total = total\<rparr>)))
   }"

definition enqueueValueWithSize ::
    "'v linked_container \<Rightarrow> 'v \<Rightarrow> number \<Rightarrow> (js_value + 'v linked_container) option" where
  "enqueueValueWithSize c value sz =
     (if \<not> isNonNegativeNumber sz then Some (Inl (JRangeError ''chunk size isn't a positive number''))
      else if sz = PosInfinity then Some (Inl (JRangeError ''chunk size is invalid''))
      else do {
        (_, q) \<leftarrow> Queue_enqueue (value, sz) (lc_queue c);
        Some (Inr \<lparr>lc_queue = q, lc_total = js_add (lc_total c) sz\<rparr>)
      })"

definition peekQueueValue :: "'v linked_container \<Rightarrow> 'v option" where
  "peekQueueValue c = do {
     js_assert (q_size (lc_queue c) \<noteq> 0);
     (value, _) \<leftarrow> Queue_peek (lc_queue c);
     Some value
   }"

definition resetQueue :: "'v linked_container" where
  "resetQueue = \<lparr>lc_queue = new_Queue, lc_total = Fin 0\<rparr>"

text \<open>The same operations on the list of queued entries.\<close>

record 'v container =
  c_queue :: "('v \<times> number) list"
  c_total :: number

definition c_dequeue :: "'v container \<Rightarrow> ('v \<times> 'v container) option" where
  "c_dequeue c =
     (case c_queue c of
        [] \<Rightarrow> None
      | (value, sz) # q \<Rightarrow>
          (let total = js_sub (c_total c) sz
           in Some (value, \<lparr>c_queue = q, c_total = (if js_less total (Fin 0) then Fin 0 else total)\<rparr>)))"

definition c_enqueue :: "'v container \<Rightarrow> 'v \<Rightarrow> number \<Rightarrow> js_value + 'v container" where
  "c_enqueue c value sz =
     (if \<not> isNonNegativeNumber sz then Inl (JRangeError ''chunk size isn't a positive number'')
      else if sz = PosInfinity then Inl (JRangeError ''chunk size is invalid'')
      else Inr \<lparr>c_queue = c_queue c @ [(value, sz)], c_total = js_add (c_total c) sz\<rparr>)"

definition c_peek :: "'v container \<Rightarrow> 'v option" where
  "c_peek c = (case c_queue c of [] \<Rightarrow> None | (value, _) # _ \<Rightarrow> Some value)"

definition c_reset :: "'v container" where
  "c_reset = \<lparr>c_queue = [], c_total = Fin 0\<rparr>"

definition abs_container :: "'v linked_container \<Rightarrow> 'v container" where
  "abs_container c = \<lparr>c_queue = Queue_contents (lc_queue c), c_total = lc_total c\<rparr>"

definition lc_inv :: "'v linked_container \<Rightarrow> bool" where
  "lc_inv c = Queue_inv (lc_queue c)"

lemma abs_reset: "lc_inv resetQueue" "abs_container resetQueue = c_reset"
  using linked_queue.new_invar linked_queue.new_contents
  by (simp_all add: lc_inv_def resetQueue_def abs_container_def c_reset_def)

lemma abs_peek: "lc_inv c \<Longrightarrow> peekQueueValue c = c_peek (abs_container c)"
  by (auto simp: lc_inv_def peekQueueValue_def c_peek_def abs_container_def Queue_size_ok Queue_peek_ok
      split: list.splits)

lemma abs_dequeue:
  assumes "lc_inv c"
  shows "rel_option (\<lambda>(v, c') (w, a). v = w \<and> lc_inv c' \<and> abs_container c' = a)
           (dequeueValue c) (c_dequeue (abs_container c))"
proof (cases "Queue_contents (lc_queue c)")
  case Nil
  then show ?thesis
    using assms by (simp add: lc_inv_def dequeueValue_def c_dequeue_def abs_container_def Queue_size_ok)
next
  case (Cons x xs)
  then obtain q where "Queue_dequeue (lc_queue c) = (Some x, q)" "Queue_inv q" "Queue_contents q = xs"
    using Queue_dequeue_ok [of "lc_queue c"] assms by (auto simp: lc_inv_def)
  then show ?thesis
    using assms Cons
    by (cases x) (simp add: lc_inv_def dequeueValue_def c_dequeue_def abs_container_def Queue_size_ok Let_def)
qed

lemma abs_enqueue:
  assumes "lc_inv c"
  shows "\<exists>r. enqueueValueWithSize c v n = Some r \<and>
             rel_sum (=) (\<lambda>c' a. lc_inv c' \<and> abs_container c' = a) r (c_enqueue (abs_container c) v n)"
proof -
  obtain q where "Queue_enqueue (v, n) (lc_queue c) = Some (q_size q, q)" "Queue_inv q"
    "Queue_contents q = Queue_contents (lc_queue c) @ [(v, n)]"
    using Queue_enqueue_ok [of "lc_queue c" "(v, n)"] assms by (auto simp: lc_inv_def)
  then show ?thesis
    by (simp add: enqueueValueWithSize_def c_enqueue_def abs_container_def lc_inv_def)
qed

text \<open>
  The total is the sum of the queued sizes, each a non-negative finite number.
\<close>

fun fin_val :: "number \<Rightarrow> rat" where
  "fin_val (Fin x) = x"
| "fin_val _ = 0"

definition sized :: "('v \<times> number) list \<Rightarrow> bool" where
  "sized q \<longleftrightarrow> (\<forall>(v, n) \<in> set q. \<exists>x. n = Fin x \<and> 0 \<le> x)"

definition total_size :: "('v \<times> number) list \<Rightarrow> rat" where
  "total_size q = sum_list (map (fin_val \<circ> snd) q)"

definition c_inv :: "'v container \<Rightarrow> bool" where
  "c_inv c \<longleftrightarrow> sized (c_queue c) \<and> c_total c = Fin (total_size (c_queue c))"

lemma sized_Cons [simp]: "sized ((v, n) # q) \<longleftrightarrow> (\<exists>x. n = Fin x \<and> 0 \<le> x) \<and> sized q"
  by (auto simp: sized_def)

lemma sized_append [simp]: "sized (p @ q) \<longleftrightarrow> sized p \<and> sized q"
  by (simp add: sized_def ball_Un)

lemma sized_Nil [simp]: "sized []"
  by (simp add: sized_def)

lemma total_size_simps [simp]:
  "total_size [] = 0" "total_size (x # q) = fin_val (snd x) + total_size q"
  "total_size (p @ q) = total_size p + total_size q"
  by (simp_all add: total_size_def)

lemma total_size_nonneg: "sized q \<Longrightarrow> 0 \<le> total_size q"
  by (induction q) auto

lemma c_inv_reset [simp]: "c_inv c_reset"
  by (simp add: c_inv_def c_reset_def)

lemma c_reset_queue [simp]: "c_queue c_reset = []"
  by (simp add: c_reset_def)

lemma c_enqueue_cases:
  "c_enqueue c v n =
     (case n of Fin x \<Rightarrow> if 0 \<le> x then Inr \<lparr>c_queue = c_queue c @ [(v, n)], c_total = js_add (c_total c) n\<rparr>
                          else Inl (JRangeError ''chunk size isn't a positive number'')
      | PosInfinity \<Rightarrow> Inl (JRangeError ''chunk size is invalid'')
      | _ \<Rightarrow> Inl (JRangeError ''chunk size isn't a positive number''))"
  by (auto simp: c_enqueue_def isNonNegativeNumber_def js_le_def split: number.splits)

lemma c_enqueue_inv:
  assumes "c_inv c" "c_enqueue c v n = Inr c'"
  shows "c_inv c' \<and> c_queue c' = c_queue c @ [(v, n)]"
  using assms by (auto simp: c_enqueue_cases c_inv_def split: number.splits if_splits)

lemma c_dequeue_inv:
  assumes "c_inv c" "c_queue c = (v, n) # q"
  shows "\<exists>c'. c_dequeue c = Some (v, c') \<and> c_inv c' \<and> c_queue c' = q"
  using assms total_size_nonneg [of q] by (auto simp: c_dequeue_def c_inv_def Let_def)

lemma c_peek_Cons: "c_queue c = (v, n) # q \<Longrightarrow> c_peek c = Some v"
  by (simp add: c_peek_def)

lemma c_peek_None: "c_peek c = None \<longleftrightarrow> c_queue c = []"
  by (auto simp: c_peek_def split: list.splits)

text \<open>Any sequence of operations, on the linked container and on the list container.\<close>

datatype 'v container_op = EnqueueValue 'v number | DequeueValue | PeekValue | ResetQueue

datatype 'v container_out = Threw js_value | Value 'v

fun lc_step :: "'v container_op \<Rightarrow> 'v linked_container \<Rightarrow> ('v container_out list \<times> 'v linked_container) option" where
  "lc_step (EnqueueValue v n) c =
     map_option (\<lambda>r. case r of Inl e \<Rightarrow> ([Threw e], c) | Inr c' \<Rightarrow> ([], c')) (enqueueValueWithSize c v n)"
| "lc_step DequeueValue c = map_option (\<lambda>(v, c'). ([Value v], c')) (dequeueValue c)"
| "lc_step PeekValue c = map_option (\<lambda>v. ([Value v], c)) (peekQueueValue c)"
| "lc_step ResetQueue c = Some ([], resetQueue)"

fun c_step :: "'v container_op \<Rightarrow> 'v container \<Rightarrow> ('v container_out list \<times> 'v container) option" where
  "c_step (EnqueueValue v n) c =
     Some (case c_enqueue c v n of Inl e \<Rightarrow> ([Threw e], c) | Inr c' \<Rightarrow> ([], c'))"
| "c_step DequeueValue c = map_option (\<lambda>(v, c'). ([Value v], c')) (c_dequeue c)"
| "c_step PeekValue c = map_option (\<lambda>v. ([Value v], c)) (c_peek c)"
| "c_step ResetQueue c = Some ([], c_reset)"

primrec run_container :: "('o \<Rightarrow> 's \<Rightarrow> ('r list \<times> 's) option) \<Rightarrow> 'o list \<Rightarrow> 's \<Rightarrow> ('r list \<times> 's) option" where
  "run_container step [] c = Some ([], c)"
| "run_container step (x # xs) c = do {
     (rs, c) \<leftarrow> step x c;
     (rs', c) \<leftarrow> run_container step xs c;
     Some (rs @ rs', c)
   }"

definition container_rel :: "'r list \<times> 'v linked_container \<Rightarrow> 'r list \<times> 'v container \<Rightarrow> bool" where
  "container_rel x y \<longleftrightarrow> fst x = fst y \<and> lc_inv (snd x) \<and> abs_container (snd x) = snd y \<and> c_inv (snd y)"

lemma step_refines:
  assumes "lc_inv c" "c_inv (abs_container c)"
  shows "rel_option container_rel (lc_step x c) (c_step x (abs_container c))"
proof (cases x)
  case (EnqueueValue v n)
  obtain r where r: "enqueueValueWithSize c v n = Some r"
      "rel_sum (=) (\<lambda>c' a. lc_inv c' \<and> abs_container c' = a) r (c_enqueue (abs_container c) v n)"
    using abs_enqueue [OF assms(1)] by blast
  show ?thesis using r assms EnqueueValue c_enqueue_inv [OF assms(2)]
    by (cases r; cases "c_enqueue (abs_container c) v n") (auto simp: container_rel_def)
next
  case DequeueValue
  show ?thesis
  proof (cases "c_queue (abs_container c)")
    case Nil
    then show ?thesis using abs_dequeue [OF assms(1)] DequeueValue by (simp add: c_dequeue_def)
  next
    case (Cons y q)
    obtain v n where y: "y = (v, n)" by (cases y)
    obtain c' where "c_dequeue (abs_container c) = Some (v, c')" "c_inv c'"
      using c_dequeue_inv [OF assms(2) Cons [unfolded y]] by blast
    then show ?thesis using abs_dequeue [OF assms(1)] DequeueValue
      by (cases "dequeueValue c") (auto simp: container_rel_def)
  qed
next
  case PeekValue
  then show ?thesis using abs_peek [OF assms(1)] assms
    by (cases "c_peek (abs_container c)") (auto simp: container_rel_def)
next
  case ResetQueue
  then show ?thesis using abs_reset by (simp add: container_rel_def)
qed

lemma run_refines:
  "lc_inv c \<Longrightarrow> c_inv (abs_container c) \<Longrightarrow>
   rel_option container_rel (run_container lc_step ops c) (run_container c_step ops (abs_container c))"
proof (induction ops arbitrary: c)
  case Nil
  then show ?case by (simp add: container_rel_def)
next
  case (Cons x xs)
  note st = step_refines [OF Cons.prems, of x]
  show ?case
  proof (cases "lc_step x c")
    case None
    then show ?thesis using st by simp
  next
    case (Some p)
    then obtain q where q: "c_step x (abs_container c) = Some q" "container_rel p q"
      using st by (auto simp: option_rel_Some1)
    then have "lc_inv (snd p)" "c_inv (abs_container (snd p))" by (simp_all add: container_rel_def)
    from Cons.IH [OF this] q Some show ?thesis
      by (cases p; cases q; cases "run_container lc_step xs (snd p)"; cases "run_container c_step xs (snd q)")
         (auto simp: container_rel_def)
  qed
qed


section \<open>Strategies\<close>

definition extractHighWaterMark :: "number option \<Rightarrow> number \<Rightarrow> js_value + number" where
  \<comment> \<open>the first argument is \<^verbatim>\<open>strategy.highWaterMark\<close>, \<open>None\<close> for \<^verbatim>\<open>undefined\<close>\<close>
  "extractHighWaterMark highWaterMark defaultHWM =
     (case highWaterMark of
        None \<Rightarrow> Inr defaultHWM
      | Some h \<Rightarrow>
          if h = NaN \<or> js_less h (Fin 0)
          then Inl (JRangeError ''Expected highWaterMark to be a positive number or Infinity'')
          else Inr h)"

definition valid_HWM :: "number \<Rightarrow> bool" where
  "valid_HWM h \<longleftrightarrow> h = PosInfinity \<or> (\<exists>x \<ge> 0. h = Fin x)"

lemma extractHighWaterMark_valid:
  "extractHighWaterMark h d = Inr n \<Longrightarrow> valid_HWM d \<Longrightarrow> valid_HWM n"
  by (auto simp: extractHighWaterMark_def valid_HWM_def js_less_def split: option.splits if_splits number.splits)

end
