(* ===== verification/Writable_Stream.thy ===== *)
theory Writable_Stream
  imports Streams_Common
begin

text \<open>
  \<^verbatim>\<open>WritableStream\<close>, its default controller and its default writers, from
  \<^verbatim>\<open>ext/web/06_streams.js\<close>: the definitions.

  One state record holds the stream, its only controller, every writer ever created for
  it (a writer is an index; a released writer stays), and the heap of deferreds. The
  controller's queue is the list of its entries (\<open>container\<close>).

  \<^item> The underlying sink and the strategy are user code: the record \<open>sink\<close>, a parameter of
    every operation. A callback is the synchronous effect it has on the stream (it may
    call any public method of it); the promise it returns settles later, as an event.
  \<^item> \<open>ws_reactions\<close> are the promise reactions registered by \<^verbatim>\<open>uponPromise\<close> that have not
    run; running one is an event of the environment (\<open>ws_react\<close>). A reaction is recorded
    when the callback whose promise it waits for is called: it runs in a later microtask,
    so registering it before or after the callback's synchronous part is the same.
  \<^item> \<open>ws_sinkLog\<close> and \<open>ws_accepted\<close> are history: the calls made on the sink and the chunks
    that entered the queue.
  A result \<open>None\<close> means that an internal assertion failed or \<^verbatim>\<open>undefined\<close> was called.
\<close>

section \<open>State\<close>

datatype writable_state = WWritable | WErroring | WErrored | WClosed

datatype 'c queue_item = Chunk 'c | CloseSentinel

record abort_request =
  ar_deferred :: nat
  ar_reason :: js_value
  ar_wasAlreadyErroring :: bool

record WritableStreamDefaultWriter =
  wr_attached :: bool
  wr_readyPromise :: nat
  wr_closedPromise :: nat

datatype reaction = StartReaction | WriteReaction | CloseReaction | AbortReaction nat

datatype 'c sink_call = SinkWrite 'c | SinkClose | SinkAbort js_value

record 'c ws =
  ws_state :: writable_state
  ws_storedError :: js_value
  ws_backpressure :: bool
  ws_writeRequests :: "nat list"
  ws_inFlightWriteRequest :: "nat option"
  ws_closeRequest :: "nat option"
  ws_inFlightCloseRequest :: "nat option"
  ws_pendingAbortRequest :: "abort_request option"
  ws_writer :: "nat option"
  ws_container :: "'c queue_item container"
  ws_started :: bool
  ws_strategyHWM :: number
  ws_algorithms :: bool
  ws_abortReason :: js_value
  ws_writers :: "WritableStreamDefaultWriter list"
  ws_heap :: "unit heap"
  ws_reactions :: "reaction list"
  ws_sinkLog :: "'c sink_call list"
  ws_accepted :: "'c list"

record 'c sink =
  k_start :: "'c ws \<Rightarrow> (js_value option \<times> 'c ws) option"
  k_size :: "'c \<Rightarrow> 'c ws \<Rightarrow> ((js_value + number) \<times> 'c ws) option"
  k_write :: "'c \<Rightarrow> 'c ws \<Rightarrow> 'c ws option"
  k_close :: "'c ws \<Rightarrow> 'c ws option"
  k_abort :: "js_value \<Rightarrow> 'c ws \<Rightarrow> 'c ws option"
  k_onabort :: "js_value \<Rightarrow> 'c ws \<Rightarrow> 'c ws option"

abbreviation ws_queue :: "'c ws \<Rightarrow> ('c queue_item \<times> number) list" where
  "ws_queue s \<equiv> c_queue (ws_container s)"

definition ws_reject :: "nat \<Rightarrow> js_value \<Rightarrow> 'c ws \<Rightarrow> 'c ws" where
  "ws_reject d e s = s\<lparr>ws_heap := h_reject d e (ws_heap s)\<rparr>"

definition ws_resolve :: "nat \<Rightarrow> 'c ws \<Rightarrow> 'c ws" where
  "ws_resolve d s = s\<lparr>ws_heap := h_resolve d () (ws_heap s)\<rparr>"

definition ws_newDeferred :: "'c ws \<Rightarrow> nat \<times> 'c ws" where
  "ws_newDeferred s = (length (ws_heap s), s\<lparr>ws_heap := ws_heap s @ [Pending]\<rparr>)"

definition ws_set_ready :: "nat \<Rightarrow> nat \<Rightarrow> 'c ws \<Rightarrow> 'c ws" where
  "ws_set_ready w d s = s\<lparr>ws_writers := (ws_writers s)[w := (ws_writers s ! w)\<lparr>wr_readyPromise := d\<rparr>]\<rparr>"

definition ws_set_closed :: "nat \<Rightarrow> nat \<Rightarrow> 'c ws \<Rightarrow> 'c ws" where
  "ws_set_closed w d s = s\<lparr>ws_writers := (ws_writers s)[w := (ws_writers s ! w)\<lparr>wr_closedPromise := d\<rparr>]\<rparr>"

section \<open>Queries\<close>

definition isWritableStreamLocked :: "'c ws \<Rightarrow> bool" where
  "isWritableStreamLocked s = (ws_writer s \<noteq> None)"

definition writableStreamCloseQueuedOrInFlight :: "'c ws \<Rightarrow> bool" where
  "writableStreamCloseQueuedOrInFlight s =
     (\<not> (ws_closeRequest s = None \<and> ws_inFlightCloseRequest s = None))"

definition writableStreamHasOperationMarkedInFlight :: "'c ws \<Rightarrow> bool" where
  "writableStreamHasOperationMarkedInFlight s =
     (\<not> (ws_inFlightWriteRequest s = None \<and> ws_inFlightCloseRequest s = None))"

definition writableStreamDefaultControllerGetDesiredSize :: "'c ws \<Rightarrow> number" where
  "writableStreamDefaultControllerGetDesiredSize s = js_sub (ws_strategyHWM s) (c_total (ws_container s))"

definition writableStreamDefaultControllerGetBackpressure :: "'c ws \<Rightarrow> bool" where
  "writableStreamDefaultControllerGetBackpressure s =
     js_le (writableStreamDefaultControllerGetDesiredSize s) (Fin 0)"

definition writableStreamDefaultWriterGetDesiredSize :: "'c ws \<Rightarrow> number option" where
  \<comment> \<open>\<open>None\<close> is \<^verbatim>\<open>null\<close>\<close>
  "writableStreamDefaultWriterGetDesiredSize s =
     (if ws_state s = WErrored \<or> ws_state s = WErroring then None
      else if ws_state s = WClosed then Some (Fin 0)
      else Some (writableStreamDefaultControllerGetDesiredSize s))"

section \<open>Internal operations\<close>

definition writableStreamDefaultControllerClearAlgorithms :: "'c ws \<Rightarrow> 'c ws" where
  "writableStreamDefaultControllerClearAlgorithms s = s\<lparr>ws_algorithms := False\<rparr>"

definition writableStreamUpdateBackpressure :: "bool \<Rightarrow> 'c ws \<Rightarrow> 'c ws option" where
  "writableStreamUpdateBackpressure bp s = do {
     js_assert (ws_state s = WWritable);
     js_assert (\<not> writableStreamCloseQueuedOrInFlight s);
     let s = (case ws_writer s of
         Some w \<Rightarrow>
           if bp \<noteq> ws_backpressure s
           then (if bp then (let (d, s) = ws_newDeferred s in ws_set_ready w d s)
                 else ws_resolve (wr_readyPromise (ws_writers s ! w)) s)
           else s
       | None \<Rightarrow> s);
     Some (s\<lparr>ws_backpressure := bp\<rparr>)
   }"

definition writableStreamDefaultWriterEnsureReadyPromiseRejected ::
    "nat \<Rightarrow> js_value \<Rightarrow> 'c ws \<Rightarrow> 'c ws" where
  "writableStreamDefaultWriterEnsureReadyPromiseRejected w e s =
     (let d = wr_readyPromise (ws_writers s ! w) in
      if ws_heap s ! d = Pending then ws_reject d e s
      else (let (d', s) = ws_newDeferred s in ws_reject d' e (ws_set_ready w d' s)))"

definition writableStreamDefaultWriterEnsureClosedPromiseRejected ::
    "nat \<Rightarrow> js_value \<Rightarrow> 'c ws \<Rightarrow> 'c ws" where
  "writableStreamDefaultWriterEnsureClosedPromiseRejected w e s =
     (let d = wr_closedPromise (ws_writers s ! w) in
      if ws_heap s ! d = Pending then ws_reject d e s
      else (let (d', s) = ws_newDeferred s in ws_reject d' e (ws_set_closed w d' s)))"

definition writableStreamRejectCloseAndClosedPromiseIfNeeded :: "'c ws \<Rightarrow> 'c ws option" where
  "writableStreamRejectCloseAndClosedPromiseIfNeeded s = do {
     js_assert (ws_state s = WErrored);
     s \<leftarrow> (case ws_closeRequest s of
         Some d \<Rightarrow> do {
           js_assert (ws_inFlightCloseRequest s = None);
           Some ((ws_reject d (ws_storedError s) s)\<lparr>ws_closeRequest := None\<rparr>)
         }
       | None \<Rightarrow> Some s);
     Some (case ws_writer s of
         Some w \<Rightarrow> ws_reject (wr_closedPromise (ws_writers s ! w)) (ws_storedError s) s
       | None \<Rightarrow> s)
   }"

definition WritableStreamDefaultController_abortSteps ::
    "'c sink \<Rightarrow> nat \<Rightarrow> js_value \<Rightarrow> 'c ws \<Rightarrow> 'c ws option" where
  \<comment> \<open>the reaction on the returned promise, registered by the caller, settles deferred \<open>d\<close>\<close>
  "WritableStreamDefaultController_abortSteps K d reason s = do {
     call_defined (ws_algorithms s);
     let s = s\<lparr>ws_sinkLog := ws_sinkLog s @ [SinkAbort reason],
               ws_reactions := ws_reactions s @ [AbortReaction d]\<rparr>;
     s \<leftarrow> k_abort K reason s;
     Some (writableStreamDefaultControllerClearAlgorithms s)
   }"

definition WritableStreamDefaultController_errorSteps :: "'c ws \<Rightarrow> 'c ws" where
  "WritableStreamDefaultController_errorSteps s = s\<lparr>ws_container := c_reset\<rparr>"

definition writableStreamFinishErroring :: "'c sink \<Rightarrow> 'c ws \<Rightarrow> 'c ws option" where
  "writableStreamFinishErroring K s = do {
     js_assert (ws_state s = WErroring);
     js_assert (\<not> writableStreamHasOperationMarkedInFlight s);
     let s = WritableStreamDefaultController_errorSteps (s\<lparr>ws_state := WErrored\<rparr>);
     let storedError = ws_storedError s;
     let s = s\<lparr>ws_heap := fold (\<lambda>d. h_reject d storedError) (ws_writeRequests s) (ws_heap s),
               ws_writeRequests := []\<rparr>;
     (case ws_pendingAbortRequest s of
        None \<Rightarrow> writableStreamRejectCloseAndClosedPromiseIfNeeded s
      | Some a \<Rightarrow>
          (let s = s\<lparr>ws_pendingAbortRequest := None\<rparr> in
           if ar_wasAlreadyErroring a
           then writableStreamRejectCloseAndClosedPromiseIfNeeded (ws_reject (ar_deferred a) storedError s)
           else WritableStreamDefaultController_abortSteps K (ar_deferred a) (ar_reason a) s))
   }"

definition writableStreamStartErroring :: "'c sink \<Rightarrow> js_value \<Rightarrow> 'c ws \<Rightarrow> 'c ws option" where
  "writableStreamStartErroring K reason s = do {
     js_assert (ws_storedError s = JUndefined);
     js_assert (ws_state s = WWritable);
     let s = s\<lparr>ws_state := WErroring, ws_storedError := reason\<rparr>;
     let s = (case ws_writer s of
         Some w \<Rightarrow> writableStreamDefaultWriterEnsureReadyPromiseRejected w reason s
       | None \<Rightarrow> s);
     if \<not> writableStreamHasOperationMarkedInFlight s \<and> ws_started s
     then writableStreamFinishErroring K s
     else Some s
   }"

definition writableStreamDealWithRejection :: "'c sink \<Rightarrow> js_value \<Rightarrow> 'c ws \<Rightarrow> 'c ws option" where
  "writableStreamDealWithRejection K error s =
     (if ws_state s = WWritable then writableStreamStartErroring K error s
      else do {
        js_assert (ws_state s = WErroring);
        writableStreamFinishErroring K s
      })"

definition writableStreamMarkCloseRequestInFlight :: "'c ws \<Rightarrow> 'c ws option" where
  "writableStreamMarkCloseRequestInFlight s = do {
     js_assert (ws_inFlightCloseRequest s = None);
     js_assert (ws_closeRequest s \<noteq> None);
     Some (s\<lparr>ws_inFlightCloseRequest := ws_closeRequest s, ws_closeRequest := None\<rparr>)
   }"

definition writableStreamMarkFirstWriteRequestInFlight :: "'c ws \<Rightarrow> 'c ws option" where
  "writableStreamMarkFirstWriteRequestInFlight s = do {
     js_assert (ws_inFlightWriteRequest s = None);
     (case ws_writeRequests s of
        [] \<Rightarrow> None
      | d # ds \<Rightarrow> Some (s\<lparr>ws_inFlightWriteRequest := Some d, ws_writeRequests := ds\<rparr>))
   }"

definition writableStreamDefaultControllerError :: "'c sink \<Rightarrow> js_value \<Rightarrow> 'c ws \<Rightarrow> 'c ws option" where
  "writableStreamDefaultControllerError K error s = do {
     js_assert (ws_state s = WWritable);
     writableStreamStartErroring K error (writableStreamDefaultControllerClearAlgorithms s)
   }"

definition writableStreamDefaultControllerErrorIfNeeded ::
    "'c sink \<Rightarrow> js_value \<Rightarrow> 'c ws \<Rightarrow> 'c ws option" where
  "writableStreamDefaultControllerErrorIfNeeded K error s =
     (if ws_state s = WWritable then writableStreamDefaultControllerError K error s else Some s)"

definition writableStreamDefaultControllerProcessClose :: "'c sink \<Rightarrow> 'c ws \<Rightarrow> 'c ws option" where
  "writableStreamDefaultControllerProcessClose K s = do {
     s \<leftarrow> writableStreamMarkCloseRequestInFlight s;
     (_, c) \<leftarrow> c_dequeue (ws_container s);
     let s = s\<lparr>ws_container := c\<rparr>;
     js_assert (ws_queue s = []);
     call_defined (ws_algorithms s);
     let s = s\<lparr>ws_sinkLog := ws_sinkLog s @ [SinkClose],
               ws_reactions := ws_reactions s @ [CloseReaction]\<rparr>;
     s \<leftarrow> k_close K s;
     Some (writableStreamDefaultControllerClearAlgorithms s)
   }"

definition writableStreamDefaultControllerProcessWrite :: "'c sink \<Rightarrow> 'c \<Rightarrow> 'c ws \<Rightarrow> 'c ws option" where
  "writableStreamDefaultControllerProcessWrite K chunk s = do {
     s \<leftarrow> writableStreamMarkFirstWriteRequestInFlight s;
     call_defined (ws_algorithms s);
     let s = s\<lparr>ws_sinkLog := ws_sinkLog s @ [SinkWrite chunk],
               ws_reactions := ws_reactions s @ [WriteReaction]\<rparr>;
     k_write K chunk s
   }"

definition writableStreamDefaultControllerAdvanceQueueIfNeeded ::
    "'c sink \<Rightarrow> 'c ws \<Rightarrow> 'c ws option" where
  "writableStreamDefaultControllerAdvanceQueueIfNeeded K s =
     (if \<not> ws_started s then Some s
      else if ws_inFlightWriteRequest s \<noteq> None then Some s
      else do {
        js_assert (ws_state s \<noteq> WClosed \<and> ws_state s \<noteq> WErrored);
        if ws_state s = WErroring then writableStreamFinishErroring K s
        else if ws_queue s = [] then Some s
        else do {
          item \<leftarrow> c_peek (ws_container s);
          (case item of
             CloseSentinel \<Rightarrow> writableStreamDefaultControllerProcessClose K s
           | Chunk chunk \<Rightarrow> writableStreamDefaultControllerProcessWrite K chunk s)
        }
      })"

definition writableStreamDefaultControllerClose :: "'c sink \<Rightarrow> 'c ws \<Rightarrow> 'c ws option" where
  "writableStreamDefaultControllerClose K s =
     (case c_enqueue (ws_container s) CloseSentinel (Fin 0) of
        Inl _ \<Rightarrow> None
      | Inr c \<Rightarrow> writableStreamDefaultControllerAdvanceQueueIfNeeded K (s\<lparr>ws_container := c\<rparr>))"

definition writableStreamDefaultControllerGetChunkSize ::
    "'c sink \<Rightarrow> 'c \<Rightarrow> 'c ws \<Rightarrow> (number \<times> 'c ws) option" where
  "writableStreamDefaultControllerGetChunkSize K chunk s = do {
     (r, s) \<leftarrow> (if ws_algorithms s then k_size K chunk s
                else Some (Inl (JTypeError ''controller[_strategySizeAlgorithm] is not a function''), s));
     (case r of
        Inl e \<Rightarrow> do {
          s \<leftarrow> writableStreamDefaultControllerErrorIfNeeded K e s;
          Some (Fin 1, s)
        }
      | Inr v \<Rightarrow> Some (v, s))
   }"

definition writableStreamDefaultControllerWrite ::
    "'c sink \<Rightarrow> 'c \<Rightarrow> number \<Rightarrow> 'c ws \<Rightarrow> 'c ws option" where
  "writableStreamDefaultControllerWrite K chunk chunkSize s =
     (case c_enqueue (ws_container s) (Chunk chunk) chunkSize of
        Inl e \<Rightarrow> writableStreamDefaultControllerErrorIfNeeded K e s
      | Inr c \<Rightarrow> do {
          let s = s\<lparr>ws_container := c, ws_accepted := ws_accepted s @ [chunk]\<rparr>;
          s \<leftarrow> (if \<not> writableStreamCloseQueuedOrInFlight s \<and> ws_state s = WWritable
                then writableStreamUpdateBackpressure (writableStreamDefaultControllerGetBackpressure s) s
                else Some s);
          writableStreamDefaultControllerAdvanceQueueIfNeeded K s
        })"

definition writableStreamAddWriteRequest :: "'c ws \<Rightarrow> (nat \<times> 'c ws) option" where
  "writableStreamAddWriteRequest s = do {
     js_assert (isWritableStreamLocked s);
     js_assert (ws_state s = WWritable);
     let (d, s) = ws_newDeferred s;
     Some (d, s\<lparr>ws_writeRequests := ws_writeRequests s @ [d]\<rparr>)
   }"

section \<open>Completion of sink operations\<close>

definition writableStreamFinishInFlightWrite :: "'c ws \<Rightarrow> 'c ws option" where
  "writableStreamFinishInFlightWrite s = do {
     d \<leftarrow> ws_inFlightWriteRequest s;
     Some ((ws_resolve d s)\<lparr>ws_inFlightWriteRequest := None\<rparr>)
   }"

definition writableStreamFinishInFlightWriteWithError ::
    "'c sink \<Rightarrow> js_value \<Rightarrow> 'c ws \<Rightarrow> 'c ws option" where
  "writableStreamFinishInFlightWriteWithError K error s = do {
     d \<leftarrow> ws_inFlightWriteRequest s;
     let s = (ws_reject d error s)\<lparr>ws_inFlightWriteRequest := None\<rparr>;
     js_assert (ws_state s = WWritable \<or> ws_state s = WErroring);
     writableStreamDealWithRejection K error s
   }"

definition writableStreamFinishInFlightClose :: "'c ws \<Rightarrow> 'c ws option" where
  "writableStreamFinishInFlightClose s = do {
     d \<leftarrow> ws_inFlightCloseRequest s;
     let s = (ws_resolve d s)\<lparr>ws_inFlightCloseRequest := None\<rparr>;
     js_assert (ws_state s = WWritable \<or> ws_state s = WErroring);
     let s = (if ws_state s = WErroring
         then (case ws_pendingAbortRequest s of
                 Some a \<Rightarrow> (ws_resolve (ar_deferred a) s)\<lparr>ws_storedError := JUndefined, ws_pendingAbortRequest := None\<rparr>
               | None \<Rightarrow> s\<lparr>ws_storedError := JUndefined\<rparr>)
         else s);
     let s = s\<lparr>ws_state := WClosed\<rparr>;
     let s = (case ws_writer s of
         Some w \<Rightarrow> ws_resolve (wr_closedPromise (ws_writers s ! w)) s
       | None \<Rightarrow> s);
     js_assert (ws_pendingAbortRequest s = None);
     js_assert (ws_storedError s = JUndefined);
     Some s
   }"

definition writableStreamFinishInFlightCloseWithError ::
    "'c sink \<Rightarrow> js_value \<Rightarrow> 'c ws \<Rightarrow> 'c ws option" where
  "writableStreamFinishInFlightCloseWithError K error s = do {
     d \<leftarrow> ws_inFlightCloseRequest s;
     let s = (ws_reject d error s)\<lparr>ws_inFlightCloseRequest := None\<rparr>;
     js_assert (ws_state s = WWritable \<or> ws_state s = WErroring);
     let s = (case ws_pendingAbortRequest s of
         Some a \<Rightarrow> (ws_reject (ar_deferred a) error s)\<lparr>ws_pendingAbortRequest := None\<rparr>
       | None \<Rightarrow> s);
     writableStreamDealWithRejection K error s
   }"

section \<open>Public operations\<close>

datatype api_result =
    RVoid
  | RWriter nat
  | RPromise nat
  | RResolved
  | RRejected js_value
  | RThrow js_value

definition AbortSignal_signalAbort :: "'c sink \<Rightarrow> js_value \<Rightarrow> 'c ws \<Rightarrow> 'c ws option" where
  "AbortSignal_signalAbort K reason s =
     (let reason = (if reason = JUndefined then JDOMException ''The signal has been aborted'' else reason) in
      if ws_abortReason s \<noteq> JUndefined then Some s
      else k_onabort K reason (s\<lparr>ws_abortReason := reason\<rparr>))"

definition writableStreamAbort :: "'c sink \<Rightarrow> js_value \<Rightarrow> 'c ws \<Rightarrow> (api_result \<times> 'c ws) option" where
  \<comment> \<open>\<open>state\<close> is read once, before the abort listeners run, and never read again\<close>
  "writableStreamAbort K reason s =
     (let state = ws_state s in
      if state = WClosed \<or> state = WErrored then Some (RResolved, s)
      else do {
        s \<leftarrow> AbortSignal_signalAbort K reason s;
        if state = WClosed \<or> state = WErrored then Some (RResolved, s)
        else (case ws_pendingAbortRequest s of
            Some a \<Rightarrow> Some (RPromise (ar_deferred a), s)
          | None \<Rightarrow> do {
              js_assert (state = WWritable \<or> state = WErroring);
              let wasAlreadyErroring = (state = WErroring);
              let reason = (if wasAlreadyErroring then JUndefined else reason);
              let (d, s) = ws_newDeferred s;
              let s = s\<lparr>ws_pendingAbortRequest :=
                Some \<lparr>ar_deferred = d, ar_reason = reason, ar_wasAlreadyErroring = wasAlreadyErroring\<rparr>\<rparr>;
              s \<leftarrow> (if \<not> wasAlreadyErroring then writableStreamStartErroring K reason s else Some s);
              Some (RPromise d, s)
            })
      })"

definition writableStreamClose :: "'c sink \<Rightarrow> 'c ws \<Rightarrow> (api_result \<times> 'c ws) option" where
  "writableStreamClose K s =
     (let state = ws_state s in
      if state = WClosed \<or> state = WErrored
      then Some (RRejected (JTypeError ''Writable stream is closed or errored.''), s)
      else do {
        js_assert (state = WWritable \<or> state = WErroring);
        js_assert (\<not> writableStreamCloseQueuedOrInFlight s);
        let (d, s) = ws_newDeferred s;
        let s = s\<lparr>ws_closeRequest := Some d\<rparr>;
        let s = (case ws_writer s of
            Some w \<Rightarrow>
              if ws_backpressure s \<and> state = WWritable
              then ws_resolve (wr_readyPromise (ws_writers s ! w)) s else s
          | None \<Rightarrow> s);
        s \<leftarrow> writableStreamDefaultControllerClose K s;
        Some (RPromise d, s)
      })"

definition writableStreamDefaultWriterWrite ::
    "'c sink \<Rightarrow> nat \<Rightarrow> 'c \<Rightarrow> 'c ws \<Rightarrow> (api_result \<times> 'c ws) option" where
  "writableStreamDefaultWriterWrite K w chunk s = do {
     js_assert (wr_attached (ws_writers s ! w));
     (chunkSize, s) \<leftarrow> writableStreamDefaultControllerGetChunkSize K chunk s;
     if \<not> wr_attached (ws_writers s ! w)
     then Some (RRejected (JTypeError ''Writer's stream is unexpected.''), s)
     else if ws_state s = WErrored then Some (RRejected (ws_storedError s), s)
     else if writableStreamCloseQueuedOrInFlight s \<or> ws_state s = WClosed
     then Some (RRejected (JTypeError ''The stream is closing or is closed.''), s)
     else if ws_state s = WErroring then Some (RRejected (ws_storedError s), s)
     else do {
       js_assert (ws_state s = WWritable);
       (d, s) \<leftarrow> writableStreamAddWriteRequest s;
       s \<leftarrow> writableStreamDefaultControllerWrite K chunk chunkSize s;
       Some (RPromise d, s)
     }
   }"

definition writableStreamDefaultWriterRelease :: "nat \<Rightarrow> 'c ws \<Rightarrow> 'c ws option" where
  "writableStreamDefaultWriterRelease w s = do {
     js_assert (wr_attached (ws_writers s ! w));
     js_assert (ws_writer s = Some w);
     let releasedError = JTypeError ''The writer has already been released.'';
     let s = writableStreamDefaultWriterEnsureReadyPromiseRejected w releasedError s;
     let s = writableStreamDefaultWriterEnsureClosedPromiseRejected w releasedError s;
     Some (s\<lparr>ws_writer := None,
              ws_writers := (ws_writers s)[w := (ws_writers s ! w)\<lparr>wr_attached := False\<rparr>]\<rparr>)
   }"

definition writableStreamDefaultWriterCloseWithErrorPropagation ::
    "'c sink \<Rightarrow> nat \<Rightarrow> 'c ws \<Rightarrow> (api_result \<times> 'c ws) option" where
  "writableStreamDefaultWriterCloseWithErrorPropagation K w s = do {
     js_assert (wr_attached (ws_writers s ! w));
     if writableStreamCloseQueuedOrInFlight s \<or> ws_state s = WClosed then Some (RResolved, s)
     else if ws_state s = WErrored then Some (RRejected (ws_storedError s), s)
     else do {
       js_assert (ws_state s = WWritable \<or> ws_state s = WErroring);
       writableStreamClose K s
     }
   }"

definition setUpWritableStreamDefaultWriter :: "'c ws \<Rightarrow> api_result \<times> 'c ws" where
  "setUpWritableStreamDefaultWriter s =
     (if isWritableStreamLocked s then (RThrow (JTypeError ''The stream is already locked.''), s)
      else
        let w = length (ws_writers s); (r, s) = ws_newDeferred s; (c, s) = ws_newDeferred s;
            s = s\<lparr>ws_writers := ws_writers s @ [\<lparr>wr_attached = True, wr_readyPromise = r, wr_closedPromise = c\<rparr>],
                  ws_writer := Some w\<rparr>
        in (RWriter w,
            case ws_state s of
              WWritable \<Rightarrow>
                if \<not> writableStreamCloseQueuedOrInFlight s \<and> ws_backpressure s then s else ws_resolve r s
            | WErroring \<Rightarrow> ws_reject r (ws_storedError s) s
            | WClosed \<Rightarrow> ws_resolve c (ws_resolve r s)
            | WErrored \<Rightarrow> ws_reject c (ws_storedError s) (ws_reject r (ws_storedError s) s)))"

definition WritableStream_abort :: "'c sink \<Rightarrow> js_value \<Rightarrow> 'c ws \<Rightarrow> (api_result \<times> 'c ws) option" where
  "WritableStream_abort K reason s =
     (if isWritableStreamLocked s
      then Some (RRejected (JTypeError ''The writable stream is locked, therefore cannot be aborted.''), s)
      else writableStreamAbort K reason s)"

definition WritableStream_close :: "'c sink \<Rightarrow> 'c ws \<Rightarrow> (api_result \<times> 'c ws) option" where
  "WritableStream_close K s =
     (if isWritableStreamLocked s
      then Some (RRejected (JTypeError ''The writable stream is locked, therefore cannot be closed.''), s)
      else if writableStreamCloseQueuedOrInFlight s
      then Some (RRejected (JTypeError ''The writable stream is already closing.''), s)
      else writableStreamClose K s)"

definition WritableStreamDefaultWriter_abort ::
    "'c sink \<Rightarrow> nat \<Rightarrow> js_value \<Rightarrow> 'c ws \<Rightarrow> (api_result \<times> 'c ws) option" where
  "WritableStreamDefaultWriter_abort K w reason s =
     (if \<not> wr_attached (ws_writers s ! w)
      then Some (RRejected (JTypeError ''A writable stream is not associated with the writer.''), s)
      else writableStreamAbort K reason s)"

definition WritableStreamDefaultWriter_close ::
    "'c sink \<Rightarrow> nat \<Rightarrow> 'c ws \<Rightarrow> (api_result \<times> 'c ws) option" where
  "WritableStreamDefaultWriter_close K w s =
     (if \<not> wr_attached (ws_writers s ! w)
      then Some (RRejected (JTypeError ''A writable stream is not associated with the writer.''), s)
      else if writableStreamCloseQueuedOrInFlight s
      then Some (RRejected (JTypeError ''The associated stream is already closing.''), s)
      else writableStreamClose K s)"

definition WritableStreamDefaultWriter_releaseLock :: "nat \<Rightarrow> 'c ws \<Rightarrow> (api_result \<times> 'c ws) option" where
  "WritableStreamDefaultWriter_releaseLock w s =
     (if \<not> wr_attached (ws_writers s ! w) then Some (RVoid, s)
      else do {
        js_assert (ws_writer s \<noteq> None);
        s \<leftarrow> writableStreamDefaultWriterRelease w s;
        Some (RVoid, s)
      })"

definition WritableStreamDefaultWriter_write ::
    "'c sink \<Rightarrow> nat \<Rightarrow> 'c \<Rightarrow> 'c ws \<Rightarrow> (api_result \<times> 'c ws) option" where
  "WritableStreamDefaultWriter_write K w chunk s =
     (if \<not> wr_attached (ws_writers s ! w)
      then Some (RRejected (JTypeError ''A writable stream is not associate with the writer.''), s)
      else writableStreamDefaultWriterWrite K w chunk s)"

definition WritableStreamDefaultController_error ::
    "'c sink \<Rightarrow> js_value \<Rightarrow> 'c ws \<Rightarrow> (api_result \<times> 'c ws) option" where
  "WritableStreamDefaultController_error K e s =
     (if ws_state s \<noteq> WWritable then Some (RVoid, s)
      else do {
        s \<leftarrow> writableStreamDefaultControllerError K e s;
        Some (RVoid, s)
      })"

section \<open>Construction\<close>

definition initializeWritableStream :: "number \<Rightarrow> 'c ws" where
  "initializeWritableStream highWaterMark =
     \<lparr>ws_state = WWritable, ws_storedError = JUndefined, ws_backpressure = False, ws_writeRequests = [],
      ws_inFlightWriteRequest = None, ws_closeRequest = None, ws_inFlightCloseRequest = None,
      ws_pendingAbortRequest = None, ws_writer = None, ws_container = c_reset, ws_started = False,
      ws_strategyHWM = highWaterMark, ws_algorithms = True, ws_abortReason = JUndefined, ws_writers = [],
      ws_heap = [], ws_reactions = [], ws_sinkLog = [], ws_accepted = []\<rparr>"

definition setUpWritableStreamDefaultController ::
    "'c sink \<Rightarrow> 'c ws \<Rightarrow> (js_value + 'c ws) option" where
  \<comment> \<open>\<open>Inl e\<close>: the sink's \<^verbatim>\<open>start\<close> threw \<open>e\<close>, which the constructor rethrows\<close>
  "setUpWritableStreamDefaultController K s = do {
     let backpressure = writableStreamDefaultControllerGetBackpressure s;
     s \<leftarrow> writableStreamUpdateBackpressure backpressure s;
     let s = s\<lparr>ws_reactions := ws_reactions s @ [StartReaction]\<rparr>;
     (r, s) \<leftarrow> k_start K s;
     Some (case r of Some e \<Rightarrow> Inl e | None \<Rightarrow> Inr s)
   }"

definition new_WritableStream :: "'c sink \<Rightarrow> number option \<Rightarrow> (js_value + 'c ws) option" where
  \<comment> \<open>\<open>hwm\<close> is \<^verbatim>\<open>strategy.highWaterMark\<close>\<close>
  "new_WritableStream K hwm =
     (case extractHighWaterMark hwm (Fin 1) of
        Inl e \<Rightarrow> Some (Inl e)
      | Inr highWaterMark \<Rightarrow>
          setUpWritableStreamDefaultController K (initializeWritableStream highWaterMark))"

section \<open>Events\<close>

datatype 'c api_call =
    GetWriter
  | StreamAbort js_value
  | StreamClose
  | WriterWrite nat 'c
  | WriterClose nat
  | WriterAbort nat js_value
  | WriterReleaseLock nat
  | ControllerError js_value

fun api_writer :: "'c api_call \<Rightarrow> nat option" where
  "api_writer (WriterWrite w _) = Some w"
| "api_writer (WriterClose w) = Some w"
| "api_writer (WriterAbort w _) = Some w"
| "api_writer (WriterReleaseLock w) = Some w"
| "api_writer _ = None"

fun exec_call :: "'c sink \<Rightarrow> 'c api_call \<Rightarrow> 'c ws \<Rightarrow> (api_result \<times> 'c ws) option" where
  "exec_call K GetWriter s = Some (setUpWritableStreamDefaultWriter s)"
| "exec_call K (StreamAbort r) s = WritableStream_abort K r s"
| "exec_call K StreamClose s = WritableStream_close K s"
| "exec_call K (WriterWrite w c) s = WritableStreamDefaultWriter_write K w c s"
| "exec_call K (WriterClose w) s = WritableStreamDefaultWriter_close K w s"
| "exec_call K (WriterAbort w r) s = WritableStreamDefaultWriter_abort K w r s"
| "exec_call K (WriterReleaseLock w) s = WritableStreamDefaultWriter_releaseLock w s"
| "exec_call K (ControllerError e) s = WritableStreamDefaultController_error K e s"

text \<open>A call on a writer that does not exist is no call at all.\<close>

definition ws_call :: "'c sink \<Rightarrow> 'c api_call \<Rightarrow> 'c ws \<Rightarrow> 'c ws option" where
  "ws_call K c s =
     (case api_writer c of
        Some w \<Rightarrow> if w < length (ws_writers s) then map_option snd (exec_call K c s) else Some s
      | None \<Rightarrow> map_option snd (exec_call K c s))"

fun ws_calls :: "'c sink \<Rightarrow> 'c api_call list \<Rightarrow> 'c ws \<Rightarrow> 'c ws option" where
  "ws_calls K [] s = Some s"
| "ws_calls K (c # cs) s = Option.bind (ws_call K c s) (ws_calls K cs)"

fun ws_reaction :: "'c sink \<Rightarrow> reaction \<Rightarrow> outcome \<Rightarrow> 'c ws \<Rightarrow> 'c ws option" where
  "ws_reaction K StartReaction Succeeded s = do {
     js_assert (ws_state s = WWritable \<or> ws_state s = WErroring);
     writableStreamDefaultControllerAdvanceQueueIfNeeded K (s\<lparr>ws_started := True\<rparr>)
   }"
| "ws_reaction K StartReaction (Failed r) s = do {
     js_assert (ws_state s = WWritable \<or> ws_state s = WErroring);
     writableStreamDealWithRejection K r (s\<lparr>ws_started := True\<rparr>)
   }"
| "ws_reaction K WriteReaction Succeeded s = do {
     s \<leftarrow> writableStreamFinishInFlightWrite s;
     let state = ws_state s;
     js_assert (state = WWritable \<or> state = WErroring);
     (_, c) \<leftarrow> c_dequeue (ws_container s);
     let s = s\<lparr>ws_container := c\<rparr>;
     s \<leftarrow> (if \<not> writableStreamCloseQueuedOrInFlight s \<and> state = WWritable
           then writableStreamUpdateBackpressure (writableStreamDefaultControllerGetBackpressure s) s
           else Some s);
     writableStreamDefaultControllerAdvanceQueueIfNeeded K s
   }"
| "ws_reaction K WriteReaction (Failed r) s =
     (let s = (if ws_state s = WWritable then writableStreamDefaultControllerClearAlgorithms s else s)
      in writableStreamFinishInFlightWriteWithError K r s)"
| "ws_reaction K CloseReaction Succeeded s = writableStreamFinishInFlightClose s"
| "ws_reaction K CloseReaction (Failed r) s = writableStreamFinishInFlightCloseWithError K r s"
| "ws_reaction K (AbortReaction d) Succeeded s =
     writableStreamRejectCloseAndClosedPromiseIfNeeded (ws_resolve d s)"
| "ws_reaction K (AbortReaction d) (Failed r) s =
     writableStreamRejectCloseAndClosedPromiseIfNeeded (ws_reject d r s)"

text \<open>A reaction runs once, when the promise it was registered on has settled.\<close>

definition ws_react :: "'c sink \<Rightarrow> reaction \<Rightarrow> outcome \<Rightarrow> 'c ws \<Rightarrow> 'c ws option" where
  "ws_react K r out s =
     (if r \<in> set (ws_reactions s)
      then ws_reaction K r out (s\<lparr>ws_reactions := remove1 r (ws_reactions s)\<rparr>)
      else Some s)"

datatype 'c event = Call "'c api_call" | Settle reaction outcome

fun ws_step :: "'c sink \<Rightarrow> 'c event \<Rightarrow> 'c ws \<Rightarrow> 'c ws option" where
  "ws_step K (Call c) s = ws_call K c s"
| "ws_step K (Settle r out) s = ws_react K r out s"

fun ws_run :: "'c sink \<Rightarrow> 'c event list \<Rightarrow> 'c ws \<Rightarrow> 'c ws option" where
  "ws_run K [] s = Some s"
| "ws_run K (e # es) s = Option.bind (ws_step K e s) (ws_run K es)"

section \<open>User code that re-enters the stream\<close>

text \<open>
  A program says which public calls each callback makes, given the state it runs in.
  \<open>nested_sink P n\<close> is the sink that executes it, with callbacks triggered from inside
  callbacks followed down to depth \<open>n\<close>. The abort listeners are silent: what a listener
  that touches the stream can do is the subject of a theorem of its own.
\<close>

record 'c program =
  p_start :: "'c ws \<Rightarrow> 'c api_call list"
  p_size :: "'c \<Rightarrow> 'c ws \<Rightarrow> 'c api_call list"
  p_sizeOf :: "'c \<Rightarrow> 'c ws \<Rightarrow> js_value + number"
  p_write :: "'c \<Rightarrow> 'c ws \<Rightarrow> 'c api_call list"
  p_close :: "'c ws \<Rightarrow> 'c api_call list"
  p_abort :: "js_value \<Rightarrow> 'c ws \<Rightarrow> 'c api_call list"

primrec nested_sink :: "'c program \<Rightarrow> nat \<Rightarrow> 'c sink" where
  "nested_sink P 0 =
     \<lparr>k_start = (\<lambda>s. Some (None, s)), k_size = (\<lambda>c s. Some (p_sizeOf P c s, s)), k_write = (\<lambda>c s. Some s),
      k_close = (\<lambda>s. Some s), k_abort = (\<lambda>r s. Some s), k_onabort = (\<lambda>r s. Some s)\<rparr>"
| "nested_sink P (Suc n) =
     \<lparr>k_start = (\<lambda>s. map_option (Pair None) (ws_calls (nested_sink P n) (p_start P s) s)),
      k_size = (\<lambda>c s. map_option (Pair (p_sizeOf P c s)) (ws_calls (nested_sink P n) (p_size P c s) s)),
      k_write = (\<lambda>c s. ws_calls (nested_sink P n) (p_write P c s) s),
      k_close = (\<lambda>s. ws_calls (nested_sink P n) (p_close P s) s),
      k_abort = (\<lambda>r s. ws_calls (nested_sink P n) (p_abort P r s) s),
      k_onabort = (\<lambda>r s. Some s)\<rparr>"

end
