(* ===== verification/Writable_Invariant.thy ===== *)
theory Writable_Invariant
  imports Writable_Stream
begin

text \<open>
  The invariant of a writable stream and its preservation by every operation.

  \<open>ws_inv\<close> has four parts: \<open>ws_control\<close> (which requests exist in which state, what the
  queue holds, what the sink has been told), \<open>ws_quiet\<close> (no work is left undone),
  \<open>ws_promises\<close> (the pending promises are exactly the ones something will settle) and
  \<open>ws_ready\<close> (the writer's ready promise signals backpressure). Each operation keeps it
  and fails no assertion, provided the callbacks of the sink do (\<open>sink_contract\<close>); the
  sinks of \<open>nested_sink\<close>, of every depth, satisfy the contract.
\<close>

section \<open>The invariant\<close>

fun queue_chunks :: "('c queue_item \<times> number) list \<Rightarrow> 'c list" where
  "queue_chunks [] = []"
| "queue_chunks ((Chunk c, _) # q) = c # queue_chunks q"
| "queue_chunks ((CloseSentinel, _) # q) = queue_chunks q"

fun log_writes :: "'c sink_call list \<Rightarrow> 'c list" where
  "log_writes [] = []"
| "log_writes (SinkWrite c # l) = c # log_writes l"
| "log_writes (_ # l) = log_writes l"

fun log_open :: "'c sink_call list \<Rightarrow> bool" where
  "log_open [] = True"
| "log_open (SinkWrite _ # l) = log_open l"
| "log_open (_ # l) = False"

fun log_ok :: "'c sink_call list \<Rightarrow> bool" where
  "log_ok [] = True"
| "log_ok (SinkWrite _ # l) = log_ok l"
| "log_ok (_ # l) = (l = [])"

lemma queue_chunks_append [simp]: "queue_chunks (p @ q) = queue_chunks p @ queue_chunks q"
  by (induction p rule: queue_chunks.induct) auto

lemma log_writes_append [simp]: "log_writes (k @ l) = log_writes k @ log_writes l"
  by (induction k rule: log_writes.induct) auto

lemma log_open_append [simp]: "log_open (k @ l) \<longleftrightarrow> log_open k \<and> log_open l"
  by (induction k rule: log_open.induct) auto

lemma log_ok_snoc: "log_open l \<Longrightarrow> log_ok (l @ [x])"
  by (induction l rule: log_open.induct) (cases x; simp)+

lemma log_open_ok: "log_open l \<Longrightarrow> log_ok l"
  by (induction l rule: log_open.induct) auto

lemma log_open_no_close: "log_open l \<Longrightarrow> SinkClose \<notin> set l"
  by (induction l rule: log_open.induct) auto

abbreviation ws_closing :: "'c ws \<Rightarrow> bool" where
  "ws_closing s \<equiv> writableStreamCloseQueuedOrInFlight s"

definition abort_outstanding :: "reaction list \<Rightarrow> bool" where
  "abort_outstanding rs \<longleftrightarrow> (\<exists>d. AbortReaction d \<in> set rs)"

lemma abort_outstanding_append [simp]:
  "abort_outstanding (rs @ ss) \<longleftrightarrow> abort_outstanding rs \<or> abort_outstanding ss"
  by (auto simp: abort_outstanding_def)

lemma abort_outstanding_Nil [simp]: "\<not> abort_outstanding []"
  by (simp add: abort_outstanding_def)

lemma abort_outstanding_Cons [simp]:
  "abort_outstanding (r # rs) \<longleftrightarrow> (\<exists>d. r = AbortReaction d) \<or> abort_outstanding rs"
  by (auto simp: abort_outstanding_def)

fun head_is_chunk :: "('c queue_item \<times> number) list \<Rightarrow> bool" where
  "head_is_chunk ((Chunk _, _) # _) = True"
| "head_is_chunk _ = False"

definition ws_inflight_ok :: "'c ws \<Rightarrow> bool" where
  "ws_inflight_ok s =
     (case ws_inFlightWriteRequest s of
        Some _ \<Rightarrow> ws_inFlightCloseRequest s = None \<and> ws_started s \<and> head_is_chunk (ws_queue s)
      | None \<Rightarrow>
          (case ws_inFlightCloseRequest s of
             Some _ \<Rightarrow> ws_started s \<and> ws_closeRequest s = None \<and> ws_queue s = [] \<and> ws_writeRequests s = []
           | None \<Rightarrow> True))"

definition ws_idle :: "'c ws \<Rightarrow> bool" where
  "ws_idle s \<longleftrightarrow>
     ws_started s \<and> ws_inFlightWriteRequest s = None \<and> ws_inFlightCloseRequest s = None \<and>
     ws_writeRequests s = [] \<and> ws_pendingAbortRequest s = None \<and> ws_queue s = []"

definition ws_abort_armed :: "'c ws \<Rightarrow> bool" where
  "ws_abort_armed s =
     (case ws_pendingAbortRequest s of
        None \<Rightarrow> True
      | Some a \<Rightarrow> ar_wasAlreadyErroring a \<or> ws_inFlightCloseRequest s \<noteq> None \<or> ws_algorithms s)"

definition ws_requests_ok :: "'c ws \<Rightarrow> bool" where
  "ws_requests_ok s =
     (case ws_state s of
        WWritable \<Rightarrow>
          ws_storedError s = JUndefined \<and> ws_pendingAbortRequest s = None \<and> ws_inflight_ok s \<and>
          (ws_inFlightCloseRequest s \<noteq> None \<or> ws_algorithms s)
      | WErroring \<Rightarrow> ws_inflight_ok s \<and> ws_abort_armed s
      | WErrored \<Rightarrow> ws_idle s \<and> (ws_closeRequest s = None \<or> abort_outstanding (ws_reactions s))
      | WClosed \<Rightarrow> ws_idle s \<and> ws_storedError s = JUndefined \<and> ws_closeRequest s = None)"

definition ws_queue_ok :: "'c ws \<Rightarrow> bool" where
  "ws_queue_ok s \<longleftrightarrow>
     c_inv (ws_container s) \<and> valid_HWM (ws_strategyHWM s) \<and>
     (ws_state s = WWritable \<longrightarrow>
        map fst (ws_queue s) =
          map Chunk (queue_chunks (ws_queue s)) @ (if ws_closeRequest s = None then [] else [CloseSentinel]) \<and>
        length (queue_chunks (ws_queue s)) =
          length (ws_writeRequests s) + length (opt_list (ws_inFlightWriteRequest s)) \<and>
        ws_accepted s = log_writes (ws_sinkLog s) @
          drop (length (opt_list (ws_inFlightWriteRequest s))) (queue_chunks (ws_queue s))) \<and>
     (ws_state s = WWritable \<and> \<not> ws_closing s \<longrightarrow>
        ws_backpressure s = writableStreamDefaultControllerGetBackpressure s)"

definition ws_log_ok :: "'c ws \<Rightarrow> bool" where
  "ws_log_ok s \<longleftrightarrow>
     (\<exists>cs. ws_accepted s = log_writes (ws_sinkLog s) @ cs) \<and>
     log_ok (ws_sinkLog s) \<and>
     (ws_algorithms s \<and> ws_inFlightCloseRequest s = None \<and> ws_state s \<noteq> WErrored \<longrightarrow> log_open (ws_sinkLog s)) \<and>
     (SinkClose \<in> set (ws_sinkLog s) \<longrightarrow> ws_accepted s = log_writes (ws_sinkLog s))"

definition ws_reactions_ok :: "'c ws \<Rightarrow> bool" where
  "ws_reactions_ok s \<longleftrightarrow>
     distinct (ws_reactions s) \<and>
     (StartReaction \<in> set (ws_reactions s) \<longleftrightarrow> \<not> ws_started s) \<and>
     (WriteReaction \<in> set (ws_reactions s) \<longleftrightarrow> ws_inFlightWriteRequest s \<noteq> None) \<and>
     (CloseReaction \<in> set (ws_reactions s) \<longleftrightarrow> ws_inFlightCloseRequest s \<noteq> None) \<and>
     (abort_outstanding (ws_reactions s) \<longrightarrow> ws_state s = WErrored)"

definition ws_writers_ok :: "'c ws \<Rightarrow> bool" where
  "ws_writers_ok s \<longleftrightarrow>
     (\<forall>w. ws_writer s = Some w \<longrightarrow> w < length (ws_writers s)) \<and>
     (\<forall>i < length (ws_writers s). wr_attached (ws_writers s ! i) \<longleftrightarrow> ws_writer s = Some i)"

definition ws_control :: "'c ws \<Rightarrow> bool" where
  "ws_control s \<longleftrightarrow>
     ws_requests_ok s \<and> ws_queue_ok s \<and> ws_log_ok s \<and> ws_reactions_ok s \<and> ws_writers_ok s"

definition ws_quiet :: "'c ws \<Rightarrow> bool" where
  "ws_quiet s =
     (case ws_state s of
        WWritable \<Rightarrow> \<not> ws_started s \<or> ws_queue s = [] \<or> ws_inFlightWriteRequest s \<noteq> None
      | WErroring \<Rightarrow> \<not> ws_started s \<or> ws_inFlightWriteRequest s \<noteq> None \<or> ws_inFlightCloseRequest s \<noteq> None
      | _ \<Rightarrow> True)"

fun reaction_deferred :: "reaction \<Rightarrow> nat list" where
  "reaction_deferred (AbortReaction d) = [d]"
| "reaction_deferred _ = []"

definition tracked_requests :: "'c ws \<Rightarrow> nat list" where
  "tracked_requests s =
     ws_writeRequests s @ opt_list (ws_inFlightWriteRequest s) @ opt_list (ws_closeRequest s) @
     opt_list (ws_inFlightCloseRequest s) @ opt_list (map_option ar_deferred (ws_pendingAbortRequest s)) @
     concat (map reaction_deferred (ws_reactions s))"

fun writer_promises :: "nat option \<Rightarrow> WritableStreamDefaultWriter list \<Rightarrow> nat list" where
  "writer_promises None ws = []"
| "writer_promises (Some w) ws = [wr_readyPromise (ws ! w), wr_closedPromise (ws ! w)]"

definition ws_tracked :: "'c ws \<Rightarrow> bool" where
  "ws_tracked s \<longleftrightarrow>
     accounted (tracked_requests s) (writer_promises (ws_writer s) (ws_writers s)) (ws_heap s)"

definition closed_promise_ok :: "writable_state \<Rightarrow> bool \<Rightarrow> bool \<Rightarrow> bool" where
  "closed_promise_ok st aborting pending =
     (case st of
        WWritable \<Rightarrow> pending
      | WErroring \<Rightarrow> pending
      | WErrored \<Rightarrow> pending \<longrightarrow> aborting
      | WClosed \<Rightarrow> \<not> pending)"

definition ws_closed_ok :: "'c ws \<Rightarrow> bool" where
  "ws_closed_ok s \<longleftrightarrow>
     (\<forall>w. ws_writer s = Some w \<longrightarrow>
        closed_promise_ok (ws_state s) (abort_outstanding (ws_reactions s))
          (wr_closedPromise (ws_writers s ! w) \<in> h_pending (ws_heap s)))"

lemma closed_promise_ok_simps [simp]:
  "closed_promise_ok WWritable a p = p" "closed_promise_ok WErroring a p = p"
  "closed_promise_ok WErrored a p = (p \<longrightarrow> a)" "closed_promise_ok WClosed a p = (\<not> p)"
  by (simp_all add: closed_promise_ok_def)

definition ready_pending :: "'c ws \<Rightarrow> bool" where
  "ready_pending s \<longleftrightarrow>
     (\<exists>w. ws_writer s = Some w \<and> wr_readyPromise (ws_writers s ! w) \<in> h_pending (ws_heap s))"

definition ws_ready :: "'c ws \<Rightarrow> bool" where
  "ws_ready s \<longleftrightarrow>
     ready_pending s =
       (ws_writer s \<noteq> None \<and> ws_state s = WWritable \<and> \<not> ws_closing s \<and> ws_backpressure s)"

definition ws_inv :: "'c ws \<Rightarrow> bool" where
  "ws_inv s \<longleftrightarrow> ws_control s \<and> ws_quiet s \<and> ws_tracked s \<and> ws_closed_ok s \<and> ws_ready s"

text \<open>What code that runs synchronously cannot undo.\<close>

definition ws_close_released :: "'c ws \<Rightarrow> bool" where
  "ws_close_released s \<longleftrightarrow> ws_inFlightCloseRequest s = None \<or> \<not> ws_algorithms s"

definition ws_sync :: "'c ws \<Rightarrow> 'c ws \<Rightarrow> bool" where
  "ws_sync s s' \<longleftrightarrow>
     ws_started s' = ws_started s \<and>
     (ws_inFlightCloseRequest s \<noteq> None \<longrightarrow> ws_inFlightCloseRequest s' = ws_inFlightCloseRequest s) \<and>
     (ws_algorithms s' \<longrightarrow> ws_algorithms s) \<and>
     (ws_close_released s \<longrightarrow> ws_close_released s') \<and>
     (ws_state s = WErrored \<longrightarrow> ws_state s' = WErrored) \<and>
     (ws_state s = WClosed \<longrightarrow> ws_state s' = WClosed) \<and>
     h_extends (ws_heap s) (ws_heap s') \<and>
     length (ws_writers s) \<le> length (ws_writers s')"

lemmas ws_query_defs = writableStreamCloseQueuedOrInFlight_def writableStreamHasOperationMarkedInFlight_def
  isWritableStreamLocked_def writableStreamDefaultControllerGetBackpressure_def
  writableStreamDefaultControllerGetDesiredSize_def

lemma ws_invI:
  assumes "ws_requests_ok s" "ws_queue_ok s" "ws_log_ok s" "ws_reactions_ok s" "ws_writers_ok s"
    "ws_quiet s" "ws_tracked s" "ws_closed_ok s" "ws_ready s"
  shows "ws_inv s"
  using assms by (simp add: ws_inv_def ws_control_def)

lemma ws_invD:
  assumes "ws_inv s"
  shows "ws_requests_ok s" "ws_queue_ok s" "ws_log_ok s" "ws_reactions_ok s" "ws_writers_ok s"
    "ws_quiet s" "ws_tracked s" "ws_closed_ok s" "ws_ready s"
  using assms by (simp_all add: ws_inv_def ws_control_def)

lemma ws_sync_refl [simp]: "ws_sync s s"
  by (simp add: ws_sync_def)

lemma ws_sync_trans [trans]: "ws_sync s t \<Longrightarrow> ws_sync t u \<Longrightarrow> ws_sync s u"
  unfolding ws_sync_def by (elim conjE, intro conjI) (simp_all add: h_extends_trans [of "ws_heap s" "ws_heap t"])

lemma reject_close_ok:
  assumes st: "ws_state s = WErrored" and idle: "ws_idle s"
    and "ws_queue_ok s" "ws_log_ok s" "ws_reactions_ok s" "ws_writers_ok s"
    and tr: "ws_tracked s" and rd: "\<not> ready_pending s"
  shows "\<exists>s'. writableStreamRejectCloseAndClosedPromiseIfNeeded s = Some s' \<and> ws_inv s' \<and>
              ws_state s' = WErrored \<and> ws_sync s s'"
proof -
  define h1 where "h1 = (case ws_closeRequest s of Some d \<Rightarrow> h_reject d (ws_storedError s) (ws_heap s) | None \<Rightarrow> ws_heap s)"
  define h2 where "h2 = (case ws_writer s of
      Some w \<Rightarrow> h_reject (wr_closedPromise (ws_writers s ! w)) (ws_storedError s) h1 | None \<Rightarrow> h1)"
  define s2 where "s2 = s\<lparr>ws_closeRequest := None, ws_heap := h2\<rparr>"
  have eq: "writableStreamRejectCloseAndClosedPromiseIfNeeded s = Some s2"
    using st idle by (cases s; cases "ws_closeRequest s"; cases "ws_writer s")
      (simp_all add: writableStreamRejectCloseAndClosedPromiseIfNeeded_def h1_def h2_def s2_def ws_reject_def
        ws_idle_def)
  have "accounted (tracked_requests s2) (writer_promises (ws_writer s) (ws_writers s)) h1"
  proof (cases "ws_closeRequest s")
    case (Some d)
    have "mset (tracked_requests s) = add_mset d (mset (tracked_requests s2))"
      using Some by (simp add: tracked_requests_def s2_def)
    then show ?thesis using tr Some unfolding ws_tracked_def h1_def by (simp add: accounted_reject)
  qed (use tr in \<open>simp add: ws_tracked_def h1_def s2_def tracked_requests_def\<close>)
  then have tr2: "ws_tracked s2"
    by (cases "ws_writer s") (auto simp: ws_tracked_def s2_def h2_def intro: accounted_settle_other)
  have p1: "h_pending h1 \<subseteq> h_pending (ws_heap s)"
    by (auto simp: h1_def split: option.splits)
  have p2: "h_pending h2 \<subseteq> h_pending h1"
    by (auto simp: h2_def split: option.splits)
  have ext: "h_extends (ws_heap s) h2"
    by (simp add: h1_def h2_def split: option.splits)
  have "ws_inv s2"
  proof (rule ws_invI)
    show "ws_requests_ok s2" using st idle by (simp add: ws_requests_ok_def s2_def ws_idle_def)
    show "ws_queue_ok s2" using assms(3) st by (simp add: ws_queue_ok_def s2_def)
    show "ws_log_ok s2" using assms(4) by (simp add: ws_log_ok_def s2_def)
    show "ws_reactions_ok s2" using assms(5) by (simp add: ws_reactions_ok_def s2_def)
    show "ws_writers_ok s2" using assms(6) by (simp add: ws_writers_ok_def s2_def)
    show "ws_quiet s2" using st by (simp add: ws_quiet_def s2_def)
    show "ws_closed_ok s2" using st by (cases "ws_writer s") (simp_all add: ws_closed_ok_def s2_def h2_def)
    show "ws_ready s2" using st rd p1 p2
      by (cases "ws_writer s") (auto simp: ws_ready_def ready_pending_def s2_def)
  qed (rule tr2)
  then show ?thesis using eq st ext by (simp add: ws_sync_def ws_close_released_def s2_def)
qed

section \<open>Operations keep the invariant\<close>

locale sink_contract =
  fixes K :: "'c sink"
  assumes size_ok: "ws_inv s \<Longrightarrow> \<exists>r s'. k_size K c s = Some (r, s') \<and> ws_inv s' \<and> ws_sync s s'"
    and write_ok: "ws_inv s \<Longrightarrow> \<exists>s'. k_write K c s = Some s' \<and> ws_inv s' \<and> ws_sync s s'"
    and close_ok: "ws_inv s \<Longrightarrow> \<exists>s'. k_close K s = Some s' \<and> ws_inv s' \<and> ws_sync s s'"
    and abort_ok: "ws_inv s \<Longrightarrow> \<exists>s'. k_abort K r s = Some s' \<and> ws_inv s' \<and> ws_sync s s'"
    and start_ok: "ws_inv s \<Longrightarrow> \<exists>r s'. k_start K s = Some (r, s') \<and> ws_inv s' \<and> ws_sync s s'"
    and onabort_ok: "k_onabort K r s = Some s"

lemma clear_ok:
  assumes "ws_inv s" "ws_state s = WErrored \<or> ws_inFlightCloseRequest s \<noteq> None"
  shows "ws_inv (writableStreamDefaultControllerClearAlgorithms s)"
  unfolding writableStreamDefaultControllerClearAlgorithms_def
proof (rule ws_invI)
  let ?s = "s\<lparr>ws_algorithms := False\<rparr>"
  note i = ws_invD [OF assms(1)]
  show "ws_requests_ok ?s" using i(1) assms(2)
    by (cases "ws_state s"; cases "ws_inFlightWriteRequest s"; cases "ws_inFlightCloseRequest s"; cases "ws_pendingAbortRequest s")
       (simp_all add: ws_requests_ok_def ws_inflight_ok_def ws_idle_def ws_abort_armed_def)
  show "ws_queue_ok ?s" using i(2) by (simp add: ws_queue_ok_def ws_query_defs)
  show "ws_log_ok ?s" using i(3) by (simp add: ws_log_ok_def)
  show "ws_reactions_ok ?s" using i(4) by (simp add: ws_reactions_ok_def)
  show "ws_writers_ok ?s" using i(5) by (simp add: ws_writers_ok_def)
  show "ws_quiet ?s" using i(6) by (simp add: ws_quiet_def cong: writable_state.case_cong)
  show "ws_tracked ?s" using i(7) by (simp add: ws_tracked_def tracked_requests_def)
  show "ws_closed_ok ?s" using i(8) by (simp add: ws_closed_ok_def)
  show "ws_ready ?s" using i(9) by (simp add: ws_ready_def ready_pending_def ws_query_defs)
qed

lemmas ws_request_defs = ws_requests_ok_def ws_inflight_ok_def ws_idle_def ws_abort_armed_def

lemma no_abort_outstanding:
  "ws_reactions_ok s \<Longrightarrow> ws_state s \<noteq> WErrored \<Longrightarrow> \<not> abort_outstanding (ws_reactions s)"
  by (auto simp: ws_reactions_ok_def)

lemma reactions_without_abort:
  "\<not> abort_outstanding rs \<Longrightarrow> concat (map reaction_deferred rs) = []"
proof (induction rs)
  case (Cons r rs)
  then show ?case by (cases r) auto
qed simp

lemma ensureReady_ok:
  assumes "ws_writer s = Some w" "w < length (ws_writers s)"
    "accounted rs (writer_promises (Some w) (ws_writers s)) (ws_heap s)"
  shows "\<exists>h ws. writableStreamDefaultWriterEnsureReadyPromiseRejected w e s =
      s\<lparr>ws_heap := h, ws_writers := ws\<rparr> \<and>
      h_extends (ws_heap s) h \<and> length ws = length (ws_writers s) \<and>
      (\<forall>i. wr_attached (ws ! i) = wr_attached (ws_writers s ! i)) \<and>
      (wr_closedPromise (ws ! w) \<in> h_pending h \<longleftrightarrow> wr_closedPromise (ws_writers s ! w) \<in> h_pending (ws_heap s)) \<and>
      wr_readyPromise (ws ! w) \<notin> h_pending h \<and>
      accounted rs (writer_promises (Some w) ws) h"
proof -
  let ?r = "wr_readyPromise (ws_writers s ! w)" and ?c = "wr_closedPromise (ws_writers s ! w)"
  have acc: "accounted rs [?r, ?c] (ws_heap s)" using assms(3) by simp
  then have rc: "?r \<noteq> ?c" "?r < length (ws_heap s)" "?c < length (ws_heap s)" by (auto simp: accounted_def)
  show ?thesis
  proof (cases "ws_heap s ! ?r = Pending")
    case True
    show ?thesis
      by (rule exI [of _ "h_reject ?r e (ws_heap s)"], rule exI [of _ "ws_writers s"])
        (use True rc acc in \<open>auto simp: writableStreamDefaultWriterEnsureReadyPromiseRejected_def ws_reject_def
            intro: accounted_settle_other\<close>)
  next
    case False
    let ?n = "length (ws_heap s)"
    let ?ws = "(ws_writers s)[w := (ws_writers s ! w)\<lparr>wr_readyPromise := ?n\<rparr>]"
    let ?h = "h_reject ?n e (ws_heap s @ [Pending])"
    have np: "?r \<notin> h_pending (ws_heap s)" using False by (simp add: h_pending_def)
    have "accounted rs [?n, ?c] ?h"
      using accounted_settle_other(1) [OF accounted_replace [of rs "[]" ?r "[?c]", simplified, OF acc np]]
      by simp
    then show ?thesis
      by (intro exI [of _ ?h] exI [of _ ?ws])
        (use False rc assms(2) in \<open>auto simp: writableStreamDefaultWriterEnsureReadyPromiseRejected_def
            ws_reject_def ws_newDeferred_def ws_set_ready_def nth_list_update\<close>)
  qed
qed

context sink_contract
begin

lemma abortSteps_ok:
  assumes "ws_inv (s\<lparr>ws_sinkLog := ws_sinkLog s @ [SinkAbort reason],
               ws_reactions := ws_reactions s @ [AbortReaction d]\<rparr>)"
    "ws_state s = WErrored" "ws_algorithms s"
  shows "\<exists>s'. WritableStreamDefaultController_abortSteps K d reason s = Some s' \<and> ws_inv s' \<and>
              ws_state s' = WErrored \<and> ws_sync s s'"
proof -
  let ?s = "s\<lparr>ws_sinkLog := ws_sinkLog s @ [SinkAbort reason],
               ws_reactions := ws_reactions s @ [AbortReaction d]\<rparr>"
  obtain s' where s': "k_abort K reason ?s = Some s'" "ws_inv s'" "ws_sync ?s s'"
    using abort_ok [OF assms(1)] by blast
  have "ws_state s' = WErrored" using s'(3) assms(2) by (simp add: ws_sync_def ws_close_released_def)
  with s' assms(2,3) clear_ok [of s'] show ?thesis
    by (simp add: WritableStreamDefaultController_abortSteps_def
        writableStreamDefaultControllerClearAlgorithms_def ws_sync_def ws_close_released_def)
qed

lemma finishErroring_ok:
  assumes "ws_requests_ok s" "ws_queue_ok s" "ws_log_ok s" "ws_reactions_ok s" "ws_writers_ok s"
    and tr: "ws_tracked s" and rd: "\<not> ready_pending s"
    and st: "ws_state s = WErroring" and nf: "\<not> writableStreamHasOperationMarkedInFlight s" and "ws_started s"
  shows "\<exists>s'. writableStreamFinishErroring K s = Some s' \<and> ws_inv s' \<and> ws_state s' = WErrored \<and>
              ws_sync s s'"
proof -
  let ?h = "fold (\<lambda>d. h_reject d (ws_storedError s)) (ws_writeRequests s) (ws_heap s)"
  define s1 where "s1 = s\<lparr>ws_state := WErrored, ws_container := c_reset, ws_heap := ?h,
    ws_writeRequests := [], ws_pendingAbortRequest := None\<rparr>"
  have none: "ws_inFlightWriteRequest s = None" "ws_inFlightCloseRequest s = None"
    using nf by (simp_all add: ws_query_defs)
  have na: "\<not> abort_outstanding (ws_reactions s)" using assms(4) st by (simp add: no_abort_outstanding)
  note react = reactions_without_abort [OF na]
  have f: "writableStreamFinishErroring K s =
      (case ws_pendingAbortRequest s of
         None \<Rightarrow> writableStreamRejectCloseAndClosedPromiseIfNeeded s1
       | Some a \<Rightarrow> if ar_wasAlreadyErroring a
           then writableStreamRejectCloseAndClosedPromiseIfNeeded (ws_reject (ar_deferred a) (ws_storedError s) s1)
           else WritableStreamDefaultController_abortSteps K (ar_deferred a) (ar_reason a) s1)"
    using st nf
    by (cases s; cases "ws_pendingAbortRequest s")
       (simp_all add: writableStreamFinishErroring_def WritableStreamDefaultController_errorSteps_def s1_def)
  have idle: "ws_idle s1" using none \<open>ws_started s\<close> by (simp add: s1_def ws_idle_def)
  have parts: "ws_queue_ok s1" "ws_writers_ok s1" "ws_reactions_ok s1" "ws_log_ok s1"
    using assms(2-5) na by (simp_all add: s1_def ws_queue_ok_def ws_writers_ok_def ws_reactions_ok_def ws_log_ok_def)
  have rd1: "\<not> ready_pending s1" using rd by (auto simp: ready_pending_def s1_def)
  let ?wp = "writer_promises (ws_writer s) (ws_writers s)"
  let ?ar = "opt_list (map_option ar_deferred (ws_pendingAbortRequest s))"
  have acc: "accounted (opt_list (ws_closeRequest s) @ ?ar) ?wp ?h"
    using tr unfolding ws_tracked_def
    by (rule accounted_reject_all) (simp add: tracked_requests_def none react)
  have sync: "ws_sync s s1" using st by (simp add: ws_sync_def ws_close_released_def s1_def)
  have t1: "tracked_requests s1 = opt_list (ws_closeRequest s)"
    using none react by (simp add: tracked_requests_def s1_def)
  show ?thesis
  proof (cases "ws_pendingAbortRequest s")
    case None
    have "ws_tracked s1" using acc None t1 by (simp add: ws_tracked_def s1_def)
    from reject_close_ok [OF _ idle parts(1,4,3,2) this rd1] show ?thesis
      using f None ws_sync_trans [OF sync] by (auto simp: s1_def)
  next
    case (Some a)
    let ?s2 = "ws_reject (ar_deferred a) (ws_storedError s) s1"
    let ?s3 = "s1\<lparr>ws_sinkLog := ws_sinkLog s1 @ [SinkAbort (ar_reason a)],
                 ws_reactions := ws_reactions s1 @ [AbortReaction (ar_deferred a)]\<rparr>"
    show ?thesis
    proof (cases "ar_wasAlreadyErroring a")
      case True
      have "ws_tracked ?s2"
        using accounted_reject [OF acc, of "ar_deferred a" "opt_list (ws_closeRequest s)"] Some t1
        by (simp add: ws_tracked_def s1_def ws_reject_def tracked_requests_def)
      moreover have "ws_idle ?s2" "ws_queue_ok ?s2" "ws_log_ok ?s2" "ws_reactions_ok ?s2" "ws_writers_ok ?s2"
        using idle parts by (simp_all add: ws_reject_def ws_idle_def ws_queue_ok_def ws_writers_ok_def
            ws_reactions_ok_def ws_log_ok_def ws_query_defs)
      moreover have "\<not> ready_pending ?s2"
        using rd1 by (auto simp: ready_pending_def ws_reject_def)
      ultimately have "\<exists>s'. writableStreamRejectCloseAndClosedPromiseIfNeeded ?s2 = Some s' \<and> ws_inv s' \<and>
          ws_state s' = WErrored \<and> ws_sync ?s2 s'"
        by (intro reject_close_ok) (simp_all add: ws_reject_def s1_def)
      moreover have "ws_sync s ?s2" using st by (simp add: ws_sync_def ws_close_released_def ws_reject_def s1_def)
      ultimately show ?thesis using f Some True ws_sync_trans by fastforce
    next
      case False
      have alg: "ws_algorithms s" using assms(1) st none Some False by (simp add: ws_request_defs)
      then have opn: "log_open (ws_sinkLog s)" using assms(3) none st by (simp add: ws_log_ok_def)
      have "ws_inv ?s3"
      proof (rule ws_invI)
        show "ws_requests_ok ?s3" using idle by (simp add: ws_requests_ok_def s1_def ws_idle_def)
        show "ws_queue_ok ?s3" using parts by (simp add: ws_queue_ok_def s1_def)
        show "ws_log_ok ?s3" using assms(3) opn log_ok_snoc by (simp add: ws_log_ok_def s1_def log_open_no_close)
        show "ws_reactions_ok ?s3"
          using assms(4) na by (simp add: ws_reactions_ok_def s1_def) (simp add: abort_outstanding_def)
        show "ws_writers_ok ?s3" using parts by (simp add: ws_writers_ok_def s1_def)
        show "ws_quiet ?s3" by (simp add: ws_quiet_def s1_def)
        show "ws_tracked ?s3" using acc Some
          by (simp add: ws_tracked_def s1_def tracked_requests_def react none)
        show "ws_closed_ok ?s3"
          by (auto simp: ws_closed_ok_def s1_def split: option.splits)
        show "ws_ready ?s3" using rd1
          by (simp add: ws_ready_def ready_pending_def s1_def)
      qed
      from abortSteps_ok [OF this] show ?thesis
        using f Some False alg ws_sync_trans [OF sync] by (auto simp: s1_def)
    qed
  qed
qed

lemma startErroring_ok:
  assumes st: "ws_state s = WWritable" "ws_storedError s = JUndefined"
    and rq: "ws_inflight_ok s" "ws_abort_armed s"
    and q: "c_inv (ws_container s)" "valid_HWM (ws_strategyHWM s)"
    and lg: "ws_log_ok s" and re: "ws_reactions_ok s" and wr: "ws_writers_ok s"
    and tr: "ws_tracked s" and cl: "ws_closed_ok s"
  shows "\<exists>s'. writableStreamStartErroring K reason s = Some s' \<and> ws_inv s' \<and> ws_sync s s' \<and>
              ws_state s' \<noteq> WWritable"
proof -
  let ?e = "s\<lparr>ws_state := WErroring, ws_storedError := reason\<rparr>"
  have "\<exists>h ws. (case ws_writer ?e of
      Some w \<Rightarrow> writableStreamDefaultWriterEnsureReadyPromiseRejected w reason ?e | None \<Rightarrow> ?e)
      = ?e\<lparr>ws_heap := h, ws_writers := ws\<rparr> \<and>
      h_extends (ws_heap s) h \<and> length ws = length (ws_writers s) \<and>
      (\<forall>i. wr_attached (ws ! i) = wr_attached (ws_writers s ! i)) \<and>
      (\<forall>w. ws_writer s = Some w \<longrightarrow> wr_closedPromise (ws ! w) \<in> h_pending h \<and>
           wr_readyPromise (ws ! w) \<notin> h_pending h) \<and>
      accounted (tracked_requests s) (writer_promises (ws_writer s) ws) h"
  proof (cases "ws_writer s")
    case None
    then show ?thesis using tr by (intro exI [of _ "ws_heap s"] exI [of _ "ws_writers s"])
        (simp add: ws_tracked_def)
  next
    case (Some w)
    have "w < length (ws_writers ?e)" using wr Some by (simp add: ws_writers_ok_def)
    moreover have "accounted (tracked_requests s) (writer_promises (Some w) (ws_writers ?e)) (ws_heap ?e)"
      using tr Some by (simp add: ws_tracked_def)
    moreover have "wr_closedPromise (ws_writers s ! w) \<in> h_pending (ws_heap s)"
      using cl Some st by (simp add: ws_closed_ok_def)
    ultimately show ?thesis
      using Some ensureReady_ok [of ?e w "tracked_requests s" reason] by auto
  qed
  then obtain h ws where hw: "(case ws_writer ?e of
      Some w \<Rightarrow> writableStreamDefaultWriterEnsureReadyPromiseRejected w reason ?e | None \<Rightarrow> ?e)
      = ?e\<lparr>ws_heap := h, ws_writers := ws\<rparr>"
      "h_extends (ws_heap s) h" "length ws = length (ws_writers s)"
      "\<And>i. wr_attached (ws ! i) = wr_attached (ws_writers s ! i)"
      "\<And>w. ws_writer s = Some w \<Longrightarrow> wr_closedPromise (ws ! w) \<in> h_pending h"
      "\<And>w. ws_writer s = Some w \<Longrightarrow> wr_readyPromise (ws ! w) \<notin> h_pending h"
      "accounted (tracked_requests s) (writer_promises (ws_writer s) ws) h"
    by blast
  define s2 where "s2 = ?e\<lparr>ws_heap := h, ws_writers := ws\<rparr>"
  have parts: "ws_requests_ok s2" "ws_queue_ok s2" "ws_log_ok s2" "ws_reactions_ok s2" "ws_writers_ok s2"
      "ws_tracked s2" "\<not> ready_pending s2" "ws_closed_ok s2"
    using rq q lg re wr hw st
    by (simp_all add: s2_def ws_request_defs ws_queue_ok_def ws_log_ok_def ws_reactions_ok_def
        ws_writers_ok_def ws_tracked_def tracked_requests_def ready_pending_def ws_closed_ok_def
        cong: option.case_cong)
  have sync: "ws_sync s s2" using hw(2,3) st by (simp add: s2_def ws_sync_def ws_close_released_def)
  have f: "writableStreamStartErroring K reason s =
      (if \<not> writableStreamHasOperationMarkedInFlight s2 \<and> ws_started s2
       then writableStreamFinishErroring K s2 else Some s2)"
    unfolding writableStreamStartErroring_def s2_def hw(1) [symmetric] using st by (simp add: Let_def)
  show ?thesis
  proof (cases "\<not> writableStreamHasOperationMarkedInFlight s2 \<and> ws_started s2")
    case True
    then obtain s' where "writableStreamFinishErroring K s2 = Some s'" "ws_inv s'" "ws_state s' = WErrored"
        "ws_sync s2 s'"
      using finishErroring_ok [OF parts(1-7)] by (auto simp: s2_def)
    then show ?thesis using f True ws_sync_trans [OF sync] by auto
  next
    case False
    then have "ws_quiet s2" by (auto simp: ws_quiet_def s2_def ws_query_defs)
    moreover have "ws_ready s2" using parts(7) by (simp add: ws_ready_def s2_def)
    ultimately have "ws_inv s2" using parts by (intro ws_invI)
    then show ?thesis using f False sync by (auto simp: s2_def)
  qed
qed

end

text \<open>What an operation that puts the stream into an error state relies on.\<close>

definition ws_failing :: "'c ws \<Rightarrow> bool" where
  "ws_failing s \<longleftrightarrow>
     (ws_state s = WWritable \<and> ws_storedError s = JUndefined \<or> ws_state s = WErroring \<and> \<not> ready_pending s) \<and>
     ws_inflight_ok s \<and> ws_abort_armed s \<and> c_inv (ws_container s) \<and> valid_HWM (ws_strategyHWM s) \<and>
     ws_log_ok s \<and> ws_reactions_ok s \<and> ws_writers_ok s \<and> ws_tracked s \<and> ws_closed_ok s"

lemma ws_inv_failing:
  assumes "ws_inv s" "ws_state s = WWritable \<or> ws_state s = WErroring"
  shows "ws_failing s"
  using assms(2)
proof
  assume st: "ws_state s = WWritable"
  then show ?thesis using ws_invD [OF assms(1)]
    by (simp add: ws_failing_def ws_requests_ok_def ws_abort_armed_def ws_queue_ok_def)
next
  assume st: "ws_state s = WErroring"
  then show ?thesis using ws_invD [OF assms(1)]
    by (simp add: ws_failing_def ws_requests_ok_def ws_queue_ok_def ws_ready_def)
qed

lemma ws_failing_clear:
  assumes "ws_failing s" "ws_pendingAbortRequest s = None"
  shows "ws_failing (writableStreamDefaultControllerClearAlgorithms s)"
  using assms
  by (simp add: ws_failing_def writableStreamDefaultControllerClearAlgorithms_def ready_pending_def
      ws_inflight_ok_def ws_abort_armed_def ws_log_ok_def ws_reactions_ok_def ws_writers_ok_def
      ws_tracked_def tracked_requests_def ws_closed_ok_def cong: option.case_cong)

lemma updateBackpressure_ok:
  assumes st: "ws_state s = WWritable" "\<not> ws_closing s"
    and wr: "ws_writers_ok s" and tr: "ws_tracked s" and cl: "ws_closed_ok s" and rd: "ws_ready s"
  shows "\<exists>h ws. writableStreamUpdateBackpressure bp s =
      Some (s\<lparr>ws_heap := h, ws_writers := ws, ws_backpressure := bp\<rparr>) \<and>
      h_extends (ws_heap s) h \<and> length ws = length (ws_writers s) \<and>
      ws_writers_ok (s\<lparr>ws_heap := h, ws_writers := ws, ws_backpressure := bp\<rparr>) \<and>
      ws_tracked (s\<lparr>ws_heap := h, ws_writers := ws, ws_backpressure := bp\<rparr>) \<and>
      ws_closed_ok (s\<lparr>ws_heap := h, ws_writers := ws, ws_backpressure := bp\<rparr>) \<and>
      ws_ready (s\<lparr>ws_heap := h, ws_writers := ws, ws_backpressure := bp\<rparr>)"
    (is "\<exists>h ws. ?P h ws")
proof (cases "ws_writer s = None \<or> bp = ws_backpressure s")
  case True
  have "writableStreamUpdateBackpressure bp s = Some (s\<lparr>ws_backpressure := bp\<rparr>)"
    using True st by (cases "ws_writer s") (simp_all add: writableStreamUpdateBackpressure_def)
  moreover have "ws_ready (s\<lparr>ws_backpressure := bp\<rparr>)" using rd True
    by (cases "ws_writer s") (simp_all add: ws_ready_def ready_pending_def ws_query_defs)
  moreover have "ws_tracked (s\<lparr>ws_backpressure := bp\<rparr>)" "ws_closed_ok (s\<lparr>ws_backpressure := bp\<rparr>)"
      "ws_writers_ok (s\<lparr>ws_backpressure := bp\<rparr>)"
    using tr cl wr by (simp_all add: ws_tracked_def tracked_requests_def ws_closed_ok_def ws_writers_ok_def)
  ultimately show ?thesis by (intro exI [of _ "ws_heap s"] exI [of _ "ws_writers s"]) simp
next
  case False
  then obtain w where w: "ws_writer s = Some w" and ne: "bp \<noteq> ws_backpressure s" by auto
  let ?r = "wr_readyPromise (ws_writers s ! w)" and ?c = "wr_closedPromise (ws_writers s ! w)"
  have wl: "w < length (ws_writers s)" using wr w by (simp add: ws_writers_ok_def)
  have acc: "accounted (tracked_requests s) [?r, ?c] (ws_heap s)" using tr w by (simp add: ws_tracked_def)
  then have rc: "?r \<noteq> ?c" "?r < length (ws_heap s)" "?c < length (ws_heap s)" by (auto simp: accounted_def)
  have pend: "?r \<in> h_pending (ws_heap s) \<longleftrightarrow> ws_backpressure s" using rd w st
    by (simp add: ws_ready_def ready_pending_def)
  have cp: "?c \<in> h_pending (ws_heap s)" using cl w st by (simp add: ws_closed_ok_def)
  show ?thesis
  proof (cases bp)
    case True
    then have np: "?r \<notin> h_pending (ws_heap s)" using pend ne by simp
    let ?n = "length (ws_heap s)"
    let ?ws = "(ws_writers s)[w := (ws_writers s ! w)\<lparr>wr_readyPromise := ?n\<rparr>]"
    have "accounted (tracked_requests s) [?n, ?c] (ws_heap s @ [Pending])"
      using accounted_replace [of _ "[]" ?r "[?c]", simplified, OF acc np] .
    then have "?P (ws_heap s @ [Pending]) ?ws"
      using True st w wl ne cp wr
      by (simp add: writableStreamUpdateBackpressure_def ws_newDeferred_def ws_set_ready_def ws_tracked_def
          tracked_requests_def ws_closed_ok_def ws_ready_def ready_pending_def ws_query_defs ws_writers_ok_def
          nth_list_update Let_def)
    then show ?thesis by blast
  next
    case False
    have "accounted (tracked_requests s) [?r, ?c] (h_resolve ?r () (ws_heap s))"
      using acc by (intro accounted_settle_other) simp_all
    then have "?P (h_resolve ?r () (ws_heap s)) (ws_writers s)"
      using False st w wl ne cp wr rc
      by (simp add: writableStreamUpdateBackpressure_def ws_resolve_def ws_tracked_def
          tracked_requests_def ws_closed_ok_def ws_ready_def ready_pending_def ws_query_defs ws_writers_ok_def
          Let_def)
    then show ?thesis by blast
  qed
qed

context sink_contract
begin

lemma dealWithRejection_ok:
  assumes "ws_failing s" "ws_started s" "\<not> writableStreamHasOperationMarkedInFlight s"
  shows "\<exists>s'. writableStreamDealWithRejection K error s = Some s' \<and> ws_inv s' \<and> ws_sync s s'"
proof (cases "ws_state s = WWritable")
  case True
  then show ?thesis using assms startErroring_ok [of s error]
    by (auto simp: writableStreamDealWithRejection_def ws_failing_def)
next
  case False
  then have st: "ws_state s = WErroring" and rd: "\<not> ready_pending s"
    using assms(1) by (auto simp: ws_failing_def)
  moreover have "ws_requests_ok s" "ws_queue_ok s" "ws_log_ok s" "ws_reactions_ok s" "ws_writers_ok s" "ws_tracked s"
    using assms(1) st by (simp_all add: ws_failing_def ws_requests_ok_def ws_queue_ok_def)
  ultimately show ?thesis using assms finishErroring_ok [of s]
    by (auto simp: writableStreamDealWithRejection_def)
qed

lemma controllerErrorIfNeeded_ok:
  assumes "ws_state s = WWritable \<Longrightarrow> ws_failing s \<and> ws_pendingAbortRequest s = None"
    "ws_state s \<noteq> WWritable \<Longrightarrow> ws_inv s"
  shows "\<exists>s'. writableStreamDefaultControllerErrorIfNeeded K e s = Some s' \<and> ws_inv s' \<and> ws_sync s s' \<and>
              ws_state s' \<noteq> WWritable"
proof (cases "ws_state s = WWritable")
  case True
  let ?s = "writableStreamDefaultControllerClearAlgorithms s"
  have "ws_failing ?s" using assms(1) True by (simp add: ws_failing_clear)
  moreover have "ws_state ?s = WWritable"
    using True by (simp add: writableStreamDefaultControllerClearAlgorithms_def)
  moreover have "ws_sync s ?s"
    by (simp add: ws_sync_def ws_close_released_def writableStreamDefaultControllerClearAlgorithms_def)
  ultimately show ?thesis using True startErroring_ok [of ?s e] ws_sync_trans [of s ?s]
    by (auto simp: writableStreamDefaultControllerErrorIfNeeded_def writableStreamDefaultControllerError_def
        ws_failing_def)
qed (use assms in \<open>simp add: writableStreamDefaultControllerErrorIfNeeded_def\<close>)

end

end
