(* ===== verification/Writable_Operations.thy ===== *)
theory Writable_Operations
  imports Writable_Invariant
begin

text \<open>
  Every operation of \<^verbatim>\<open>WritableStream\<close>, its controller and its writers keeps the invariant
  of \<open>Writable_Invariant\<close> and fails no assertion; so does every promise reaction.
\<close>

section \<open>The controller's queue\<close>

text \<open>The invariant while work is still to be done.\<close>

definition ws_active :: "'c ws \<Rightarrow> bool" where
  "ws_active s \<longleftrightarrow>
     ws_requests_ok s \<and> ws_queue_ok s \<and> ws_log_ok s \<and> ws_reactions_ok s \<and> ws_writers_ok s \<and>
     ws_tracked s \<and> ws_closed_ok s \<and> ws_ready s"

lemma ws_inv_active: "ws_inv s \<longleftrightarrow> ws_active s \<and> ws_quiet s"
  by (auto simp: ws_inv_def ws_control_def ws_active_def)

lemma ws_activeD:
  assumes "ws_active s"
  shows "ws_requests_ok s" "ws_queue_ok s" "ws_log_ok s" "ws_reactions_ok s" "ws_writers_ok s"
    "ws_tracked s" "ws_closed_ok s" "ws_ready s"
  using assms by (simp_all add: ws_active_def)

lemma ws_tracked_perm:
  assumes "ws_tracked s" "mset (tracked_requests t) = mset (tracked_requests s)"
    "ws_heap t = ws_heap s" "ws_writer t = ws_writer s" "ws_writers t = ws_writers s"
  shows "ws_tracked t"
  using assms accounted_perm [OF _ assms(2) [symmetric]] by (simp add: ws_tracked_def)

lemma queue_head_chunk:
  assumes "ws_queue_ok s" "ws_state s = WWritable" "ws_queue s = (Chunk c, n) # q"
    "ws_inFlightWriteRequest s = None"
  obtains d ds where "ws_writeRequests s = d # ds" "length (queue_chunks q) = length ds"
    "ws_accepted s = log_writes (ws_sinkLog s) @ c # queue_chunks q"
  using assms by (cases "ws_writeRequests s") (auto simp: ws_queue_ok_def)

lemma queue_head_sentinel:
  assumes "ws_queue_ok s" "ws_state s = WWritable" "ws_queue s = (CloseSentinel, n) # q"
    "ws_inFlightWriteRequest s = None"
  shows "q = [] \<and> ws_closeRequest s \<noteq> None \<and> ws_writeRequests s = [] \<and> ws_accepted s = log_writes (ws_sinkLog s)"
proof -
  have m: "CloseSentinel # map fst q = map Chunk (queue_chunks q) @
      (if ws_closeRequest s = None then [] else [CloseSentinel])"
    using assms(1-3) by (simp add: ws_queue_ok_def)
  then have e: "queue_chunks q = []" by (cases "queue_chunks q") (simp_all split: if_splits)
  then show ?thesis using assms m by (simp add: ws_queue_ok_def split: if_splits)
qed

context sink_contract
begin

lemma processWrite_ok:
  assumes act: "ws_active s" and st: "ws_state s = WWritable" "ws_started s"
    and none: "ws_inFlightWriteRequest s = None" "ws_inFlightCloseRequest s = None"
    and q: "ws_queue s = (Chunk c, n) # q"
  shows "\<exists>s'. writableStreamDefaultControllerProcessWrite K c s = Some s' \<and> ws_inv s' \<and> ws_sync s s'"
proof -
  note a = ws_activeD [OF act]
  obtain d ds where d: "ws_writeRequests s = d # ds" "length (queue_chunks q) = length ds"
      "ws_accepted s = log_writes (ws_sinkLog s) @ c # queue_chunks q"
    using queue_head_chunk [OF a(2) st(1) q none(1)] .
  have alg: "ws_algorithms s" using a(1) st none by (simp add: ws_requests_ok_def)
  have opn: "log_open (ws_sinkLog s)" using a(3) alg none st by (simp add: ws_log_ok_def)
  define s1 where "s1 = s\<lparr>ws_inFlightWriteRequest := Some d, ws_writeRequests := ds,
      ws_sinkLog := ws_sinkLog s @ [SinkWrite c], ws_reactions := ws_reactions s @ [WriteReaction]\<rparr>"
  have "ws_inv s1"
  proof (rule ws_invI)
    show "ws_requests_ok s1" using a(1) st none q by (simp add: ws_request_defs s1_def)
    show "ws_queue_ok s1" using a(2) st none q d
      by (simp add: ws_queue_ok_def s1_def ws_query_defs)
    show "ws_log_ok s1" using opn d log_ok_snoc [OF opn]
      by (simp add: ws_log_ok_def s1_def log_open_no_close)
    show "ws_reactions_ok s1" using a(4) none by (simp add: ws_reactions_ok_def s1_def)
    show "ws_writers_ok s1" using a(5) by (simp add: ws_writers_ok_def s1_def)
    show "ws_quiet s1" using st by (simp add: ws_quiet_def s1_def)
    have "mset (tracked_requests s1) = mset (tracked_requests s)"
      using d none by (simp add: tracked_requests_def s1_def)
    then show "ws_tracked s1" by (rule ws_tracked_perm [OF a(6)]) (simp_all add: s1_def)
    show "ws_closed_ok s1" using a(7) st by (simp add: ws_closed_ok_def s1_def)
    show "ws_ready s1" using a(8) by (simp add: ws_ready_def ready_pending_def s1_def ws_query_defs)
  qed
  moreover have "ws_sync s s1" using none by (simp add: ws_sync_def ws_close_released_def s1_def)
  moreover have "writableStreamDefaultControllerProcessWrite K c s = k_write K c s1"
    using d none alg by (simp add: writableStreamDefaultControllerProcessWrite_def
        writableStreamMarkFirstWriteRequestInFlight_def s1_def)
  ultimately show ?thesis using write_ok [of s1 c] ws_sync_trans [of s s1] by auto
qed

lemma processClose_ok:
  assumes act: "ws_active s" and st: "ws_state s = WWritable" "ws_started s"
    and none: "ws_inFlightWriteRequest s = None" "ws_inFlightCloseRequest s = None"
    and q: "ws_queue s = (CloseSentinel, n) # q"
  shows "\<exists>s'. writableStreamDefaultControllerProcessClose K s = Some s' \<and> ws_inv s' \<and> ws_sync s s'"
proof -
  note a = ws_activeD [OF act]
  obtain d where d: "ws_closeRequest s = Some d" "q = []" "ws_writeRequests s = []"
      "ws_accepted s = log_writes (ws_sinkLog s)"
    using queue_head_sentinel [OF a(2) st(1) q none(1)] by auto
  have alg: "ws_algorithms s" using a(1) st none by (simp add: ws_requests_ok_def)
  have opn: "log_open (ws_sinkLog s)" using a(3) alg none st by (simp add: ws_log_ok_def)
  obtain k where k: "c_dequeue (ws_container s) = Some (CloseSentinel, k)" "c_inv k" "c_queue k = []"
    using c_dequeue_inv [of "ws_container s"] a(2) q d by (auto simp: ws_queue_ok_def)
  define s1 where "s1 = s\<lparr>ws_inFlightCloseRequest := Some d, ws_closeRequest := None, ws_container := k,
      ws_sinkLog := ws_sinkLog s @ [SinkClose], ws_reactions := ws_reactions s @ [CloseReaction]\<rparr>"
  have inv: "ws_inv s1"
  proof (rule ws_invI)
    show "ws_requests_ok s1" using a(1) st none d k by (simp add: ws_request_defs s1_def)
    show "ws_queue_ok s1" using a(2) st none d k
      by (simp add: ws_queue_ok_def s1_def ws_query_defs)
    show "ws_log_ok s1" using d log_ok_snoc [OF opn] by (simp add: ws_log_ok_def s1_def)
    show "ws_reactions_ok s1" using a(4) none by (simp add: ws_reactions_ok_def s1_def)
    show "ws_writers_ok s1" using a(5) by (simp add: ws_writers_ok_def s1_def)
    show "ws_quiet s1" using st k by (simp add: ws_quiet_def s1_def)
    have "mset (tracked_requests s1) = mset (tracked_requests s)"
      using d none by (simp add: tracked_requests_def s1_def)
    then show "ws_tracked s1" by (rule ws_tracked_perm [OF a(6)]) (simp_all add: s1_def)
    show "ws_closed_ok s1" using a(7) st by (simp add: ws_closed_ok_def s1_def)
    show "ws_ready s1" using a(8) d by (simp add: ws_ready_def ready_pending_def s1_def ws_query_defs)
  qed
  have eq: "writableStreamDefaultControllerProcessClose K s =
      Option.bind (k_close K s1) (\<lambda>s. Some (writableStreamDefaultControllerClearAlgorithms s))"
    using d none alg k by (simp add: writableStreamDefaultControllerProcessClose_def
        writableStreamMarkCloseRequestInFlight_def s1_def)
  obtain s2 where s2: "k_close K s1 = Some s2" "ws_inv s2" "ws_sync s1 s2"
    using close_ok [OF inv] by blast
  have "ws_inFlightCloseRequest s2 \<noteq> None" using s2(3) by (simp add: ws_sync_def ws_close_released_def s1_def)
  then have "ws_inv (writableStreamDefaultControllerClearAlgorithms s2)" using clear_ok s2(2) by blast
  moreover have "ws_sync s (writableStreamDefaultControllerClearAlgorithms s2)"
    using s2(3) none st by (simp add: ws_sync_def ws_close_released_def s1_def writableStreamDefaultControllerClearAlgorithms_def)
  ultimately show ?thesis using eq s2 by simp
qed

lemma advanceQueue_ok:
  assumes act: "ws_active s" and st: "ws_state s = WWritable \<or> ws_state s = WErroring"
    and nc: "ws_state s = WErroring \<Longrightarrow> ws_inFlightCloseRequest s = None"
  shows "\<exists>s'. writableStreamDefaultControllerAdvanceQueueIfNeeded K s = Some s' \<and> ws_inv s' \<and> ws_sync s s'"
proof -
  note a = ws_activeD [OF act]
  consider (early) "\<not> ws_started s \<or> ws_inFlightWriteRequest s \<noteq> None"
    | (erroring) "ws_started s" "ws_inFlightWriteRequest s = None" "ws_state s = WErroring"
    | (idle) "ws_started s" "ws_inFlightWriteRequest s = None" "ws_state s = WWritable" "ws_queue s = []"
    | (work) x n q where "ws_started s" "ws_inFlightWriteRequest s = None" "ws_state s = WWritable"
        "ws_queue s = (x, n) # q"
    using st by (cases "ws_queue s") auto
  then show ?thesis
  proof cases
    case early
    then have "ws_quiet s" using st by (auto simp: ws_quiet_def)
    then show ?thesis using early act
      by (auto simp: writableStreamDefaultControllerAdvanceQueueIfNeeded_def ws_inv_active)
  next
    case erroring
    then have "\<not> ready_pending s" "\<not> writableStreamHasOperationMarkedInFlight s"
      using a(8) nc by (simp_all add: ws_ready_def ws_query_defs)
    then show ?thesis using erroring finishErroring_ok [OF a(1-6)]
      by (auto simp: writableStreamDefaultControllerAdvanceQueueIfNeeded_def)
  next
    case idle
    then have "ws_quiet s" by (simp add: ws_quiet_def)
    then show ?thesis using idle act
      by (simp add: writableStreamDefaultControllerAdvanceQueueIfNeeded_def ws_inv_active)
  next
    case work
    have nf: "ws_inFlightCloseRequest s = None" using a(1) work
      by (cases "ws_inFlightCloseRequest s") (simp_all add: ws_requests_ok_def ws_inflight_ok_def)
    have pk: "c_peek (ws_container s) = Some x" using c_peek_Cons work(4) .
    show ?thesis
    proof (cases x)
      case (Chunk c)
      then show ?thesis using processWrite_ok [OF act work(3,1,2) nf] work pk
        by (simp add: writableStreamDefaultControllerAdvanceQueueIfNeeded_def)
    next
      case CloseSentinel
      then show ?thesis using processClose_ok [OF act work(3,1,2) nf] work pk
        by (simp add: writableStreamDefaultControllerAdvanceQueueIfNeeded_def)
    qed
  qed
qed

end

section \<open>Public operations\<close>

lemma ws_inv_abortReason [simp]: "ws_inv (s\<lparr>ws_abortReason := r\<rparr>) = ws_inv s"
  by (simp add: ws_inv_def ws_control_def ws_request_defs ws_queue_ok_def ws_log_ok_def ws_reactions_ok_def
      ws_writers_ok_def ws_quiet_def ws_tracked_def tracked_requests_def ws_closed_ok_def ws_ready_def
      ready_pending_def ws_query_defs cong: option.case_cong writable_state.case_cong)

lemma new_request_ok:
  assumes tr: "ws_tracked s" and t: "mset (tracked_requests t) = add_mset (length (ws_heap s)) (mset (tracked_requests s))"
    "ws_heap t = ws_heap s @ [Pending]" "ws_writer t = ws_writer s" "ws_writers t = ws_writers s"
  shows "ws_tracked t" "ready_pending t = ready_pending s"
    "ws_state t = ws_state s \<Longrightarrow> ws_reactions t = ws_reactions s \<Longrightarrow> ws_closed_ok t = ws_closed_ok s"
proof -
  have acc: "accounted (tracked_requests s) (writer_promises (ws_writer s) (ws_writers s)) (ws_heap s)"
    using tr by (simp add: ws_tracked_def)
  show "ws_tracked t" using accounted_new [OF acc t(1)] t by (simp add: ws_tracked_def)
  have "wr_readyPromise (ws_writers s ! w) \<noteq> length (ws_heap s)"
    "wr_closedPromise (ws_writers s ! w) \<noteq> length (ws_heap s)" if "ws_writer s = Some w" for w
    using acc that by (auto simp: accounted_def)
  then show "ready_pending t = ready_pending s"
    "ws_state t = ws_state s \<Longrightarrow> ws_reactions t = ws_reactions s \<Longrightarrow> ws_closed_ok t = ws_closed_ok s"
    using t by (auto simp: ready_pending_def ws_closed_ok_def)
qed

context sink_contract
begin

lemma writableStreamAbort_ok:
  assumes "ws_inv s"
  shows "\<exists>r s'. writableStreamAbort K reason s = Some (r, s') \<and> ws_inv s' \<and> ws_sync s s'"
proof (cases "ws_state s = WClosed \<or> ws_state s = WErrored")
  case True
  then show ?thesis using assms by (simp add: writableStreamAbort_def)
next
  case False
  then have st: "ws_state s = WWritable \<or> ws_state s = WErroring" by (cases "ws_state s") simp_all
  obtain t where t: "AbortSignal_signalAbort K reason s = Some (s\<lparr>ws_abortReason := t\<rparr>)"
    by (cases "ws_abortReason s = JUndefined")
       (auto simp: AbortSignal_signalAbort_def onabort_ok Let_def intro: that [of "ws_abortReason s"])
  define s1 where "s1 = s\<lparr>ws_abortReason := t\<rparr>"
  have inv: "ws_inv s1" using assms by (simp add: s1_def)
  note i = ws_invD [OF inv]
  have s1: "ws_state s1 = ws_state s" "ws_sync s s1" by (simp_all add: s1_def ws_sync_def ws_close_released_def)
  show ?thesis
  proof (cases "ws_pendingAbortRequest s1")
    case (Some a)
    then have "writableStreamAbort K reason s = Some (RPromise (ar_deferred a), s1)"
      using False by (simp add: writableStreamAbort_def t s1_def Let_def)
    then show ?thesis using inv s1 by simp
  next
    case None
    let ?was = "ws_state s = WErroring"
    let ?r = "if ?was then JUndefined else reason"
    define s2 where "s2 = s1\<lparr>ws_heap := ws_heap s1 @ [Pending],
       ws_pendingAbortRequest := Some \<lparr>ar_deferred = length (ws_heap s1), ar_reason = ?r, ar_wasAlreadyErroring = ?was\<rparr>\<rparr>"
    have eq: "writableStreamAbort K reason s =
        Option.bind (if \<not> ?was then writableStreamStartErroring K ?r s2 else Some s2)
          (\<lambda>s'. Some (RPromise (length (ws_heap s1)), s'))"
      using st False None by (auto simp: writableStreamAbort_def t s1_def s2_def ws_newDeferred_def Let_def)
    have "mset (tracked_requests s2) = add_mset (length (ws_heap s1)) (mset (tracked_requests s1))"
      using None by (simp add: tracked_requests_def s2_def)
    note n = new_request_ok [OF i(7) this]
    have n1: "ws_tracked s2" "ready_pending s2 = ready_pending s1" "ws_closed_ok s2"
      using n i(8) by (simp_all add: s2_def)
    have parts: "c_inv (ws_container s2)" "valid_HWM (ws_strategyHWM s2)" "ws_log_ok s2" "ws_reactions_ok s2"
        "ws_writers_ok s2"
      using i(2-5) by (simp_all add: s2_def ws_queue_ok_def ws_log_ok_def ws_reactions_ok_def ws_writers_ok_def)
    have sync: "ws_sync s s2" using s1(2) by (simp add: ws_sync_def ws_close_released_def s2_def)
    show ?thesis
    proof (cases ?was)
      case True
      have "ws_inv s2"
      proof (rule ws_invI)
        show "ws_requests_ok s2" using i(1) True s1
          by (simp add: ws_requests_ok_def ws_inflight_ok_def ws_abort_armed_def s2_def cong: option.case_cong)
        show "ws_queue_ok s2" using parts True s1 by (simp add: ws_queue_ok_def s2_def)
        show "ws_quiet s2" using i(6) True s1 by (simp add: ws_quiet_def s2_def)
        show "ws_ready s2" using i(9) n1(2) True s1 by (simp add: ws_ready_def s2_def)
      qed (use parts n1 in simp_all)
      then show ?thesis using eq True sync by simp
    next
      case False
      then have w: "ws_state s1 = WWritable" using st s1 by simp
      then have "ws_state s2 = WWritable" "ws_storedError s2 = JUndefined" "ws_inflight_ok s2" "ws_abort_armed s2"
        using i(1) False
        by (simp_all add: s2_def ws_requests_ok_def ws_inflight_ok_def ws_abort_armed_def cong: option.case_cong)
      then show ?thesis using startErroring_ok [of s2 ?r] parts n1 eq False ws_sync_trans [OF sync] by fastforce
    qed
  qed
qed

lemma getChunkSize_ok:
  assumes "ws_inv s"
  shows "\<exists>v s'. writableStreamDefaultControllerGetChunkSize K c s = Some (v, s') \<and> ws_inv s' \<and> ws_sync s s'"
proof -
  have err: "\<exists>u. writableStreamDefaultControllerErrorIfNeeded K e t = Some u \<and> ws_inv u \<and> ws_sync t u"
    if "ws_inv t" for e t
    using controllerErrorIfNeeded_ok [of t e] ws_inv_failing [OF that] ws_invD(1) [OF that] that
    by (fastforce simp: ws_requests_ok_def)
  show ?thesis
  proof (cases "ws_algorithms s")
    case True
    obtain r t where rt: "k_size K c s = Some (r, t)" "ws_inv t" "ws_sync s t" using size_ok [OF assms] by blast
    show ?thesis
    proof (cases r)
      case (Inl e)
      obtain u where "writableStreamDefaultControllerErrorIfNeeded K e t = Some u" "ws_inv u" "ws_sync t u"
        using err [OF rt(2)] by blast
      then show ?thesis using True rt Inl ws_sync_trans [OF rt(3)]
        by (simp add: writableStreamDefaultControllerGetChunkSize_def)
    next
      case (Inr v)
      then show ?thesis using True rt by (simp add: writableStreamDefaultControllerGetChunkSize_def)
    qed
  next
    case False
    then show ?thesis
      using err [OF assms, of "JTypeError ''controller[_strategySizeAlgorithm] is not a function''"]
      by (auto simp: writableStreamDefaultControllerGetChunkSize_def)
  qed
qed

lemma writableStreamClose_ok:
  assumes "ws_inv s" and nc: "\<not> ws_closing s"
  shows "\<exists>r s'. writableStreamClose K s = Some (r, s') \<and> ws_inv s' \<and> ws_sync s s'"
proof (cases "ws_state s = WClosed \<or> ws_state s = WErrored")
  case True
  then show ?thesis using assms by (simp add: writableStreamClose_def)
next
  case False
  then have st: "ws_state s = WWritable \<or> ws_state s = WErroring" by (cases "ws_state s") simp_all
  note i = ws_invD [OF assms(1)]
  have none: "ws_closeRequest s = None" "ws_inFlightCloseRequest s = None" using nc by (simp_all add: ws_query_defs)
  let ?d = "length (ws_heap s)"
  define h where "h = (case ws_writer s of
      Some w \<Rightarrow> if ws_backpressure s \<and> ws_state s = WWritable
        then h_resolve (wr_readyPromise (ws_writers s ! w)) () (ws_heap s @ [Pending]) else ws_heap s @ [Pending]
    | None \<Rightarrow> ws_heap s @ [Pending])"
  obtain c where c: "c_enqueue (ws_container s) CloseSentinel (Fin 0) = Inr c"
    by (simp add: c_enqueue_cases)
  have ci: "c_inv c" "c_queue c = ws_queue s @ [(CloseSentinel, Fin 0)]"
    using c_enqueue_inv [OF _ c] i(2) by (simp_all add: ws_queue_ok_def)
  define s1 where "s1 = s\<lparr>ws_heap := ws_heap s @ [Pending], ws_closeRequest := Some ?d\<rparr>"
  define s2 where "s2 = s1\<lparr>ws_heap := h, ws_container := c\<rparr>"
  have eq: "writableStreamClose K s = Option.bind (writableStreamDefaultControllerAdvanceQueueIfNeeded K s2)
      (\<lambda>s'. Some (RPromise ?d, s'))"
    using st False nc c
    by (cases s; cases "ws_writer s") (auto simp: writableStreamClose_def writableStreamDefaultControllerClose_def
        ws_newDeferred_def ws_resolve_def h_def s1_def s2_def Let_def)
  have "mset (tracked_requests s1) = add_mset ?d (mset (tracked_requests s))"
    using none by (simp add: tracked_requests_def s1_def)
  note n = new_request_ok [OF i(7) this]
  have n1: "ws_tracked s1" "ready_pending s1 = ready_pending s" "ws_closed_ok s1"
    using n i(8) by (simp_all add: s1_def)
  have rd: "\<not> ready_pending s2"
    using n1(2) i(9) nc st unfolding ws_ready_def
    by (cases "ws_writer s") (auto simp: ready_pending_def s1_def s2_def h_def)
  have tr: "ws_tracked s2"
    using n1(1) by (cases "ws_writer s")
      (auto simp: ws_tracked_def tracked_requests_def s1_def s2_def h_def intro: accounted_settle_other)
  have "wr_readyPromise (ws_writers s ! w) \<noteq> wr_closedPromise (ws_writers s ! w)" if "ws_writer s = Some w" for w
    using i(7) that by (auto simp: ws_tracked_def accounted_def)
  then have cl: "ws_closed_ok s2" using n1(3) st
    by (auto simp: ws_closed_ok_def s1_def s2_def h_def split: option.splits)
  have "ws_active s2"
    unfolding ws_active_def
  proof (intro conjI)
    show "ws_requests_ok s2" using i(1) st none ci
      by (auto simp: s1_def s2_def ws_request_defs neq_Nil_conv split: option.splits elim!: head_is_chunk.elims)
    show "ws_queue_ok s2" using i(2) st none ci
      by (auto simp: s1_def s2_def ws_queue_ok_def ws_query_defs)
    show "ws_log_ok s2" using i(3) by (simp add: s1_def s2_def ws_log_ok_def)
    show "ws_reactions_ok s2" using i(4) by (simp add: s1_def s2_def ws_reactions_ok_def)
    show "ws_writers_ok s2" using i(5) by (simp add: s1_def s2_def ws_writers_ok_def)
    show "ws_ready s2" using rd by (simp add: ws_ready_def s1_def s2_def ws_query_defs)
  qed (rule tr cl)+
  moreover have "ws_sync s s2"
    using none st by (auto simp: ws_sync_def ws_close_released_def s1_def s2_def h_def split: option.splits)
  ultimately show ?thesis
    using advanceQueue_ok [of s2] eq st none ws_sync_trans [of s s2] by (fastforce simp: s1_def s2_def)
qed

lemma controllerWrite_ok:
  assumes "ws_inv s" and st: "ws_state s = WWritable" and nc: "\<not> ws_closing s"
    and s1: "s1 = s\<lparr>ws_heap := ws_heap s @ [Pending], ws_writeRequests := ws_writeRequests s @ [length (ws_heap s)]\<rparr>"
  shows "\<exists>s'. writableStreamDefaultControllerWrite K chunk n s1 = Some s' \<and> ws_inv s' \<and> ws_sync s s'"
proof -
  note i = ws_invD [OF assms(1)]
  have none: "ws_closeRequest s = None" "ws_inFlightCloseRequest s = None" using nc by (simp_all add: ws_query_defs)
  have "mset (tracked_requests s1) = add_mset (length (ws_heap s)) (mset (tracked_requests s))"
    by (simp add: tracked_requests_def s1)
  note nr = new_request_ok [OF i(7) this]
  have n1: "ws_tracked s1" "ready_pending s1 = ready_pending s" "ws_closed_ok s1"
    using nr i(8) by (simp_all add: s1)
  have sync: "ws_sync s s1" using none st by (simp add: ws_sync_def ws_close_released_def s1)
  have s1s: "ws_state s1 = WWritable" "ws_container s1 = ws_container s" "ws_pendingAbortRequest s1 = None"
    using st i(1) by (simp_all add: s1 ws_requests_ok_def)
  have fl: "ws_inflight_ok s1" "ws_storedError s1 = JUndefined" "ws_algorithms s1"
    using i(1) st none by (simp_all add: s1 ws_requests_ok_def ws_inflight_ok_def cong: option.case_cong)
  have parts: "c_inv (ws_container s)" "valid_HWM (ws_strategyHWM s)" "ws_log_ok s1" "ws_reactions_ok s1" "ws_writers_ok s1"
    using i(2-5) by (simp_all add: s1 ws_queue_ok_def ws_log_ok_def ws_reactions_ok_def ws_writers_ok_def)
  show ?thesis
  proof (cases "c_enqueue (ws_container s) (Chunk chunk) n")
    case (Inl e)
    have "ws_failing s1" using s1s fl parts n1 by (simp add: ws_failing_def ws_abort_armed_def s1)
    then show ?thesis using Inl s1s controllerErrorIfNeeded_ok [of s1 e] ws_sync_trans [OF sync]
      by (auto simp: writableStreamDefaultControllerWrite_def)
  next
    case (Inr c)
    have ci: "c_inv c" "c_queue c = ws_queue s @ [(Chunk chunk, n)]" using c_enqueue_inv [OF parts(1) Inr] by auto
    define s2 where "s2 = s1\<lparr>ws_container := c, ws_accepted := ws_accepted s1 @ [chunk]\<rparr>"
    let ?bp = "writableStreamDefaultControllerGetBackpressure s2"
    have s2: "ws_state s2 = WWritable" "\<not> ws_closing s2" using s1s nc by (simp_all add: s2_def s1 ws_query_defs)
    have rd: "ws_ready s2" using n1(2) i(9) st
      by (simp add: ws_ready_def s2_def s1 ready_pending_def ws_query_defs)
    have p2: "ws_writers_ok s2" "ws_tracked s2" "ws_closed_ok s2"
      using parts n1 by (simp_all add: s2_def ws_writers_ok_def ws_tracked_def tracked_requests_def ws_closed_ok_def)
    obtain h ws where hw: "writableStreamUpdateBackpressure ?bp s2 =
        Some (s2\<lparr>ws_heap := h, ws_writers := ws, ws_backpressure := ?bp\<rparr>)" "h_extends (ws_heap s2) h"
        "length ws = length (ws_writers s2)"
        "ws_writers_ok (s2\<lparr>ws_heap := h, ws_writers := ws, ws_backpressure := ?bp\<rparr>)"
        "ws_tracked (s2\<lparr>ws_heap := h, ws_writers := ws, ws_backpressure := ?bp\<rparr>)"
        "ws_closed_ok (s2\<lparr>ws_heap := h, ws_writers := ws, ws_backpressure := ?bp\<rparr>)"
        "ws_ready (s2\<lparr>ws_heap := h, ws_writers := ws, ws_backpressure := ?bp\<rparr>)"
      using updateBackpressure_ok [OF s2 p2 rd, of ?bp] by blast
    define s3 where "s3 = s2\<lparr>ws_heap := h, ws_writers := ws, ws_backpressure := ?bp\<rparr>"
    have "ws_active s3"
      unfolding ws_active_def
    proof (intro conjI)
      show "ws_requests_ok s3" using i(1) st none ci
        by (auto simp: s3_def s2_def s1 ws_request_defs neq_Nil_conv split: option.splits elim!: head_is_chunk.elims)
      show "ws_queue_ok s3" using i(2) st none ci nc
        by (simp add: s3_def s2_def s1 ws_queue_ok_def ws_query_defs)
      show "ws_log_ok s3" using i(2,3) fl st none log_open_no_close
        by (auto simp: s3_def s2_def s1 ws_log_ok_def)
      show "ws_reactions_ok s3" using parts by (simp add: s3_def s2_def ws_reactions_ok_def)
    qed (use hw in \<open>simp_all add: s3_def\<close>)
    moreover have "writableStreamDefaultControllerWrite K chunk n s1 =
        writableStreamDefaultControllerAdvanceQueueIfNeeded K s3"
      using Inr s2 hw(1) by (simp add: writableStreamDefaultControllerWrite_def s1s s3_def s2_def [symmetric])
    moreover have "h_extends (ws_heap s) h" using hw(2) h_extends_trans [of "ws_heap s" "ws_heap s2" h]
      by (simp add: s2_def s1)
    then have "ws_sync s s3" using hw(3) none st by (simp add: ws_sync_def ws_close_released_def s3_def s2_def s1)
    ultimately show ?thesis
      using advanceQueue_ok [of s3] s2 ws_sync_trans [of s s3] by (auto simp: s3_def)
  qed
qed

lemma writerWrite_ok:
  assumes inv: "ws_inv s" and w: "w < length (ws_writers s)" "wr_attached (ws_writers s ! w)"
  shows "\<exists>r s'. writableStreamDefaultWriterWrite K w chunk s = Some (r, s') \<and> ws_inv s' \<and> ws_sync s s'"
proof -
  obtain n t where t: "writableStreamDefaultControllerGetChunkSize K chunk s = Some (n, t)" "ws_inv t" "ws_sync s t"
    using getChunkSize_ok [OF inv] by blast
  show ?thesis
  proof (cases "wr_attached (ws_writers t ! w) \<and> ws_state t = WWritable \<and> \<not> ws_closing t")
    case True
    have "w < length (ws_writers t)" using w t(3) by (simp add: ws_sync_def ws_close_released_def)
    then have "isWritableStreamLocked t"
      using ws_invD(5) [OF t(2)] True by (simp add: isWritableStreamLocked_def ws_writers_ok_def)
    then show ?thesis
      using True w t controllerWrite_ok [OF t(2) _ _ refl, of chunk n] ws_sync_trans [OF t(3)]
      by (auto simp: writableStreamDefaultWriterWrite_def writableStreamAddWriteRequest_def ws_newDeferred_def)
  next
    case False
    then show ?thesis using w t by (cases "ws_state t") (auto simp: writableStreamDefaultWriterWrite_def)
  qed
qed

end

lemma ensureClosed_ok:
  assumes "ws_writer s = Some w" "w < length (ws_writers s)"
    "accounted rs (writer_promises (Some w) (ws_writers s)) (ws_heap s)"
    "wr_readyPromise (ws_writers s ! w) \<notin> h_pending (ws_heap s)"
  shows "\<exists>h ws. writableStreamDefaultWriterEnsureClosedPromiseRejected w e s =
      s\<lparr>ws_heap := h, ws_writers := ws\<rparr> \<and>
      h_extends (ws_heap s) h \<and> length ws = length (ws_writers s) \<and>
      (\<forall>i. wr_attached (ws ! i) = wr_attached (ws_writers s ! i)) \<and>
      accounted rs [] h"
proof -
  let ?r = "wr_readyPromise (ws_writers s ! w)" and ?c = "wr_closedPromise (ws_writers s ! w)"
  have acc: "accounted rs [?r, ?c] (ws_heap s)" using assms(3) by simp
  then have rc: "?r \<noteq> ?c" "?r < length (ws_heap s)" "?c < length (ws_heap s)" by (auto simp: accounted_def)
  show ?thesis
  proof (cases "ws_heap s ! ?c = Pending")
    case True
    have "accounted rs [] (h_reject ?c e (ws_heap s))"
      using assms(4) accounted_settle_other(1) [OF acc, of ?c e] by (intro accounted_forget) auto
    then show ?thesis
      by (intro exI [of _ "h_reject ?c e (ws_heap s)"] exI [of _ "ws_writers s"])
        (use True in \<open>auto simp: writableStreamDefaultWriterEnsureClosedPromiseRejected_def ws_reject_def\<close>)
  next
    case False
    let ?n = "length (ws_heap s)"
    let ?ws = "(ws_writers s)[w := (ws_writers s ! w)\<lparr>wr_closedPromise := ?n\<rparr>]"
    let ?h = "h_reject ?n e (ws_heap s @ [Pending])"
    have np: "?c \<notin> h_pending (ws_heap s)" using False by (simp add: h_pending_def)
    have "accounted rs [?r, ?n] (ws_heap s @ [Pending])"
      using accounted_replace [of rs "[?r]" ?c "[]", simplified, OF acc np] .
    then have "accounted rs [] ?h"
      using assms(4) rc accounted_settle_other(1) [of rs "[?r, ?n]" _ ?n e] by (intro accounted_forget) auto
    then show ?thesis
      by (intro exI [of _ ?h] exI [of _ ?ws])
        (use False assms(2) in \<open>auto simp: writableStreamDefaultWriterEnsureClosedPromiseRejected_def
            ws_reject_def ws_newDeferred_def ws_set_closed_def nth_list_update\<close>)
  qed
qed

lemma writerRelease_ok:
  assumes "ws_inv s" and w: "w < length (ws_writers s)" "wr_attached (ws_writers s ! w)"
  shows "\<exists>s'. writableStreamDefaultWriterRelease w s = Some s' \<and> ws_inv s' \<and> ws_sync s s'"
proof -
  note i = ws_invD [OF assms(1)]
  have sw: "ws_writer s = Some w" using i(5) w by (simp add: ws_writers_ok_def)
  let ?e = "JTypeError ''The writer has already been released.''"
  have acc: "accounted (tracked_requests s) (writer_promises (Some w) (ws_writers s)) (ws_heap s)"
    using i(7) sw by (simp add: ws_tracked_def)
  obtain h ws where 1: "writableStreamDefaultWriterEnsureReadyPromiseRejected w ?e s = s\<lparr>ws_heap := h, ws_writers := ws\<rparr>"
      "h_extends (ws_heap s) h" "length ws = length (ws_writers s)"
      "\<forall>i. wr_attached (ws ! i) = wr_attached (ws_writers s ! i)"
      "wr_readyPromise (ws ! w) \<notin> h_pending h" "accounted (tracked_requests s) (writer_promises (Some w) ws) h"
    using ensureReady_ok [OF sw w(1) acc] by blast
  let ?s1 = "s\<lparr>ws_heap := h, ws_writers := ws\<rparr>"
  obtain h2 ws2 where 2: "writableStreamDefaultWriterEnsureClosedPromiseRejected w ?e ?s1 =
      ?s1\<lparr>ws_heap := h2, ws_writers := ws2\<rparr>"
      "h_extends h h2" "length ws2 = length ws" "\<forall>i. wr_attached (ws2 ! i) = wr_attached (ws ! i)"
      "accounted (tracked_requests s) [] h2"
    using ensureClosed_ok [of ?s1 w "tracked_requests s" ?e] 1 sw w by auto
  define s2 where "s2 = s\<lparr>ws_heap := h2, ws_writer := None, ws_writers := ws2[w := (ws2 ! w)\<lparr>wr_attached := False\<rparr>]\<rparr>"
  have eq: "writableStreamDefaultWriterRelease w s = Some s2"
    using sw w 1(1) 2(1) by (cases s) (simp add: writableStreamDefaultWriterRelease_def s2_def Let_def)
  have "ws_inv s2"
  proof (rule ws_invI)
    show "ws_requests_ok s2" using i(1)
      by (simp add: s2_def ws_request_defs cong: option.case_cong writable_state.case_cong)
    show "ws_queue_ok s2" using i(2) by (simp add: s2_def ws_queue_ok_def ws_query_defs)
    show "ws_log_ok s2" using i(3) by (simp add: s2_def ws_log_ok_def)
    show "ws_reactions_ok s2" using i(4) by (simp add: s2_def ws_reactions_ok_def)
    show "ws_writers_ok s2" using i(5) sw 1(3,4) 2(3,4)
      by (auto simp: s2_def ws_writers_ok_def nth_list_update)
    show "ws_quiet s2" using i(6) by (simp add: s2_def ws_quiet_def cong: writable_state.case_cong)
    show "ws_tracked s2" using 2(5) by (simp add: s2_def ws_tracked_def tracked_requests_def)
    show "ws_closed_ok s2" by (simp add: s2_def ws_closed_ok_def)
    show "ws_ready s2" by (simp add: s2_def ws_ready_def ready_pending_def)
  qed
  moreover have "ws_sync s s2"
    using 1(2,3) 2(2,3) h_extends_trans by (auto simp: s2_def ws_sync_def ws_close_released_def)
  ultimately show ?thesis using eq by simp
qed

lemma setUpWriter_ok:
  assumes "ws_inv s"
  shows "\<exists>r s'. setUpWritableStreamDefaultWriter s = (r, s') \<and> ws_inv s' \<and> ws_sync s s'"
proof (cases "ws_writer s")
  case (Some w)
  then show ?thesis using assms by (simp add: setUpWritableStreamDefaultWriter_def isWritableStreamLocked_def)
next
  case None
  note i = ws_invD [OF assms(1)]
  let ?n = "length (ws_heap s)" and ?w = "length (ws_writers s)"
  let ?h0 = "ws_heap s @ [Pending] @ [Pending]"
  define h where "h = (case ws_state s of
      WWritable \<Rightarrow> if \<not> ws_closing s \<and> ws_backpressure s then ?h0 else h_resolve ?n () ?h0
    | WErroring \<Rightarrow> h_reject ?n (ws_storedError s) ?h0
    | WClosed \<Rightarrow> h_resolve (Suc ?n) () (h_resolve ?n () ?h0)
    | WErrored \<Rightarrow> h_reject (Suc ?n) (ws_storedError s) (h_reject ?n (ws_storedError s) ?h0))"
  define s1 where "s1 = s\<lparr>ws_heap := h, ws_writer := Some ?w,
     ws_writers := ws_writers s @ [\<lparr>wr_attached = True, wr_readyPromise = ?n, wr_closedPromise = Suc ?n\<rparr>]\<rparr>"
  have eq: "setUpWritableStreamDefaultWriter s = (RWriter ?w, s1)"
    using None by (cases s; cases "ws_state s")
      (simp_all add: setUpWritableStreamDefaultWriter_def ws_newDeferred_def ws_resolve_def ws_reject_def
        s1_def h_def ws_query_defs Let_def)
  have "accounted (tracked_requests s) [] (ws_heap s)" using i(7) None by (simp add: ws_tracked_def)
  from accounted_new_other [OF accounted_new_other [OF this]]
  have "accounted (tracked_requests s) [?n, Suc ?n] ?h0" by simp
  then have acc: "accounted (tracked_requests s) [?n, Suc ?n] h"
    by (cases "ws_state s") (auto simp: h_def accounted_settle_other)
  have hp: "?n \<in> h_pending h \<longleftrightarrow> ws_state s = WWritable \<and> \<not> ws_closing s \<and> ws_backpressure s"
      "Suc ?n \<in> h_pending h \<longleftrightarrow> ws_state s = WWritable \<or> ws_state s = WErroring"
    by (cases "ws_state s"; simp add: h_def h_pending_append_Pending [of "ws_heap s @ [Pending]", simplified])+
  have "ws_inv s1"
  proof (rule ws_invI)
    show "ws_requests_ok s1" using i(1)
      by (simp add: s1_def ws_request_defs cong: option.case_cong writable_state.case_cong)
    show "ws_queue_ok s1" using i(2) by (simp add: s1_def ws_queue_ok_def ws_query_defs)
    show "ws_log_ok s1" using i(3) by (simp add: s1_def ws_log_ok_def)
    show "ws_reactions_ok s1" using i(4) by (simp add: s1_def ws_reactions_ok_def)
    show "ws_writers_ok s1" using i(5) None by (simp add: s1_def ws_writers_ok_def nth_append)
    show "ws_quiet s1" using i(6) by (simp add: s1_def ws_quiet_def cong: writable_state.case_cong)
    show "ws_tracked s1" using acc by (simp add: s1_def ws_tracked_def tracked_requests_def)
    show "ws_closed_ok s1" using hp(2) by (cases "ws_state s") (simp_all add: s1_def ws_closed_ok_def)
    show "ws_ready s1" using hp(1) by (simp add: s1_def ws_ready_def ready_pending_def ws_query_defs)
  qed
  moreover have "h_extends (ws_heap s) ?h0"
    using h_extends_new [OF h_extends_new [OF h_extends_refl]] by simp
  then have "ws_sync s s1" by (cases "ws_state s") (simp_all add: s1_def ws_sync_def ws_close_released_def h_def)
  ultimately show ?thesis using eq by simp
qed

context sink_contract
begin

lemma controllerError_ok:
  assumes "ws_inv s"
  shows "\<exists>r s'. WritableStreamDefaultController_error K e s = Some (r, s') \<and> ws_inv s' \<and> ws_sync s s'"
proof (cases "ws_state s = WWritable")
  case True
  moreover have "ws_failing s" "ws_pendingAbortRequest s = None"
    using ws_inv_failing [OF assms] ws_invD(1) [OF assms] True by (simp_all add: ws_requests_ok_def)
  ultimately obtain s' where "writableStreamDefaultControllerErrorIfNeeded K e s = Some s'" "ws_inv s'" "ws_sync s s'"
    using controllerErrorIfNeeded_ok [of s e] by auto
  then show ?thesis using True
    by (simp add: WritableStreamDefaultController_error_def writableStreamDefaultControllerErrorIfNeeded_def)
qed (use assms in \<open>simp add: WritableStreamDefaultController_error_def\<close>)

lemma releaseLock_ok:
  assumes "ws_inv s" "w < length (ws_writers s)"
  shows "\<exists>r s'. WritableStreamDefaultWriter_releaseLock w s = Some (r, s') \<and> ws_inv s' \<and> ws_sync s s'"
proof (cases "wr_attached (ws_writers s ! w)")
  case True
  then have "ws_writer s = Some w" using assms ws_invD(5) [OF assms(1)] by (simp add: ws_writers_ok_def)
  then show ?thesis using True writerRelease_ok [OF assms True]
    by (auto simp: WritableStreamDefaultWriter_releaseLock_def)
qed (use assms in \<open>simp add: WritableStreamDefaultWriter_releaseLock_def\<close>)

lemma exec_call_ok:
  assumes "ws_inv s" "\<And>w. api_writer c = Some w \<Longrightarrow> w < length (ws_writers s)"
  shows "\<exists>r s'. exec_call K c s = Some (r, s') \<and> ws_inv s' \<and> ws_sync s s'"
proof (cases c)
  case GetWriter
  then show ?thesis using setUpWriter_ok [OF assms(1)] by auto
next
  case (WriterReleaseLock w)
  then show ?thesis using releaseLock_ok assms by simp
next
  case (WriterWrite w x)
  then show ?thesis using assms writerWrite_ok [OF assms(1)]
    by (auto simp: WritableStreamDefaultWriter_write_def)
qed (use assms in \<open>auto simp: WritableStream_abort_def WritableStream_close_def
    WritableStreamDefaultWriter_abort_def WritableStreamDefaultWriter_close_def
    writableStreamAbort_ok writableStreamClose_ok controllerError_ok\<close>)

lemma ws_call_ok:
  assumes "ws_inv s"
  shows "\<exists>s'. ws_call K c s = Some s' \<and> ws_inv s' \<and> ws_sync s s'"
  using exec_call_ok [OF assms, of c] assms by (auto simp: ws_call_def split: option.splits)

lemma ws_calls_ok:
  assumes "ws_inv s"
  shows "\<exists>s'. ws_calls K cs s = Some s' \<and> ws_inv s' \<and> ws_sync s s'"
  using assms
proof (induction cs arbitrary: s)
  case (Cons c cs)
  obtain t where "ws_call K c s = Some t" "ws_inv t" "ws_sync s t" using ws_call_ok [OF Cons.prems] by blast
  then show ?case using Cons.IH [of t] ws_sync_trans [of s t] by auto
qed simp

end

section \<open>Promise reactions\<close>

text \<open>What no step undoes: settled promises and the final states.\<close>

definition ws_later :: "'c ws \<Rightarrow> 'c ws \<Rightarrow> bool" where
  "ws_later s s' \<longleftrightarrow>
     h_extends (ws_heap s) (ws_heap s') \<and>
     (ws_state s = WErrored \<longrightarrow> ws_state s' = WErrored) \<and>
     (ws_state s = WClosed \<longrightarrow> ws_state s' = WClosed)"

lemma ws_later_refl [simp]: "ws_later s s"
  by (simp add: ws_later_def)

lemma ws_later_trans [trans]: "ws_later s t \<Longrightarrow> ws_later t u \<Longrightarrow> ws_later s u"
  by (auto simp: ws_later_def intro: h_extends_trans)

lemma ws_sync_later: "ws_sync s t \<Longrightarrow> ws_later s t"
  by (simp add: ws_sync_def ws_close_released_def ws_later_def)

lemma remove1_reaction:
  assumes "distinct rs" "\<forall>d. r \<noteq> AbortReaction d"
  shows "set (remove1 r rs) = set rs - {r}" "abort_outstanding (remove1 r rs) = abort_outstanding rs"
    "concat (map reaction_deferred (remove1 r rs)) = concat (map reaction_deferred rs)"
proof -
  show "set (remove1 r rs) = set rs - {r}" using assms(1) by simp
  then show "abort_outstanding (remove1 r rs) = abort_outstanding rs"
    using assms(2) by (auto simp: abort_outstanding_def)
  have "reaction_deferred r = []" using assms(2) by (cases r) auto
  then show "concat (map reaction_deferred (remove1 r rs)) = concat (map reaction_deferred rs)"
    by (induction rs) auto
qed

lemma remove1_deferred:
  "r \<in> set rs \<Longrightarrow> mset (concat (map reaction_deferred rs)) =
     mset (reaction_deferred r) + mset (concat (map reaction_deferred (remove1 r rs)))"
  by (induction rs) auto

text \<open>
  Between events no callback is running, so a close in flight has released the
  algorithms (\<^verbatim>\<open>writableStreamDefaultControllerClearAlgorithms\<close> at the end of
  \<^verbatim>\<open>ProcessClose\<close>).
\<close>

definition ws_top :: "'c ws \<Rightarrow> bool" where
  "ws_top s \<longleftrightarrow> ws_inv s \<and> ws_close_released s"

lemma ws_topI: "ws_inv s' \<Longrightarrow> ws_sync s s' \<Longrightarrow> ws_close_released s \<Longrightarrow> ws_top s'"
  by (simp add: ws_top_def ws_sync_def)

lemma ws_active_failing:
  assumes "ws_active s" "ws_state s = WWritable \<or> ws_state s = WErroring"
  shows "ws_failing s"
  using assms by (auto simp: ws_active_def ws_failing_def ws_requests_ok_def ws_abort_armed_def ws_queue_ok_def
      ws_ready_def)

lemma not_idle:
  assumes "ws_requests_ok s" "\<not> ws_idle s"
  shows "ws_state s = WWritable \<or> ws_state s = WErroring"
  using assms by (cases "ws_state s") (simp_all add: ws_requests_ok_def)

lemma start_active:
  assumes inv: "ws_inv s" and r: "StartReaction \<in> set (ws_reactions s)"
    and s1: "s1 = s\<lparr>ws_reactions := remove1 StartReaction (ws_reactions s), ws_started := True\<rparr>"
  shows "ws_active s1" "\<not> writableStreamHasOperationMarkedInFlight s1"
    "ws_state s = WWritable \<or> ws_state s = WErroring"
proof -
  note i = ws_invD [OF inv]
  have ns: "\<not> ws_started s" using i(4) r by (simp add: ws_reactions_ok_def)
  then show st: "ws_state s = WWritable \<or> ws_state s = WErroring"
    using not_idle [OF i(1)] by (simp add: ws_idle_def)
  have none: "ws_inFlightWriteRequest s = None" "ws_inFlightCloseRequest s = None"
    using st i(1) ns by (auto simp: ws_requests_ok_def ws_inflight_ok_def split: option.splits)
  then show "\<not> writableStreamHasOperationMarkedInFlight s1" by (simp add: s1 ws_query_defs)
  have dis: "distinct (ws_reactions s)" using i(4) by (simp add: ws_reactions_ok_def)
  note rem = remove1_reaction [OF dis, of StartReaction, simplified]
  show "ws_active s1"
    unfolding ws_active_def
  proof (intro conjI)
    show "ws_requests_ok s1" using i(1) st none
      by (auto simp: s1 ws_requests_ok_def ws_inflight_ok_def ws_abort_armed_def cong: option.case_cong)
    show "ws_queue_ok s1" using i(2) by (simp add: s1 ws_queue_ok_def ws_query_defs)
    show "ws_log_ok s1" using i(3) by (simp add: s1 ws_log_ok_def)
    show "ws_reactions_ok s1" using i(4) dis rem by (simp add: s1 ws_reactions_ok_def)
    show "ws_writers_ok s1" using i(5) by (simp add: s1 ws_writers_ok_def)
    show "ws_tracked s1" using i(7) by (simp add: s1 ws_tracked_def tracked_requests_def rem)
    show "ws_closed_ok s1" using i(8) by (simp add: s1 ws_closed_ok_def rem)
    show "ws_ready s1" using i(9) by (simp add: s1 ws_ready_def ready_pending_def ws_query_defs)
  qed
qed

context sink_contract
begin

lemma start_reaction_ok:
  assumes "ws_inv s" "StartReaction \<in> set (ws_reactions s)"
  shows "\<exists>s'. ws_reaction K StartReaction out (s\<lparr>ws_reactions := remove1 StartReaction (ws_reactions s)\<rparr>) = Some s' \<and>
              ws_top s' \<and> ws_later s s'"
proof -
  define s1 where "s1 = s\<lparr>ws_reactions := remove1 StartReaction (ws_reactions s), ws_started := True\<rparr>"
  note a = start_active [OF assms s1_def]
  have st: "ws_state s1 = WWritable \<or> ws_state s1 = WErroring" "ws_later s s1" using a(3)
    by (simp_all add: s1_def ws_later_def)
  have none: "ws_close_released s1" "ws_inFlightCloseRequest s1 = None" using a(2)
    by (simp_all add: ws_close_released_def ws_query_defs)
  have "\<exists>s'. ws_reaction K StartReaction out (s\<lparr>ws_reactions := remove1 StartReaction (ws_reactions s)\<rparr>) = Some s' \<and>
      ws_inv s' \<and> ws_sync s1 s'"
  proof (cases out)
    case Succeeded
    then show ?thesis using a(3) advanceQueue_ok [OF a(1) st(1) none(2)] by (simp add: s1_def)
  next
    case (Failed e)
    have "ws_started s1" by (simp add: s1_def)
    then show ?thesis using a(3) Failed dealWithRejection_ok [OF ws_active_failing [OF a(1) st(1)] _ a(2)]
      by (simp add: s1_def)
  qed
  then show ?thesis using none(1) st(2) ws_topI ws_sync_later ws_later_trans by blast
qed

end

lemma head_is_chunkE: "head_is_chunk q \<Longrightarrow> \<exists>c n p. q = (Chunk c, n) # p"
  by (erule head_is_chunk.elims) auto

lemma write_in_flight:
  assumes "ws_inv s" "WriteReaction \<in> set (ws_reactions s)"
  obtains d c n q where "ws_inFlightWriteRequest s = Some d" "ws_queue s = (Chunk c, n) # q"
    "ws_inFlightCloseRequest s = None" "ws_started s" "ws_state s = WWritable \<or> ws_state s = WErroring"
proof -
  note i = ws_invD [OF assms(1)]
  obtain d where d: "ws_inFlightWriteRequest s = Some d" using i(4) assms(2) by (auto simp: ws_reactions_ok_def)
  then have st: "ws_state s = WWritable \<or> ws_state s = WErroring" using not_idle [OF i(1)] by (simp add: ws_idle_def)
  then have "ws_inflight_ok s" using i(1) by (auto simp: ws_requests_ok_def)
  then have f: "ws_inFlightCloseRequest s = None" "ws_started s" "head_is_chunk (ws_queue s)"
    using d by (simp_all add: ws_inflight_ok_def)
  obtain c n q where "ws_queue s = (Chunk c, n) # q" using head_is_chunkE [OF f(3)] by blast
  then show thesis using that d f st by blast
qed

text \<open>The write in flight settles: its promise leaves the heap of pending ones.\<close>

lemma write_done_parts:
  assumes inv: "ws_inv s" and r: "WriteReaction \<in> set (ws_reactions s)"
    and d: "ws_inFlightWriteRequest s = Some d" and h: "h = h_resolve d () (ws_heap s) \<or> h = h_reject d e (ws_heap s)"
    and s1: "s1 = s\<lparr>ws_reactions := remove1 WriteReaction (ws_reactions s), ws_heap := h, ws_inFlightWriteRequest := None\<rparr>"
  shows "ws_tracked s1" "ready_pending s1 = ready_pending s" "ws_closed_ok s1" "ws_reactions_ok s1"
    "ws_writers_ok s1" "ws_log_ok s1" "ws_later s s1"
proof -
  note i = ws_invD [OF inv]
  have dis: "distinct (ws_reactions s)" using i(4) by (simp add: ws_reactions_ok_def)
  note rem = remove1_reaction [OF dis, of WriteReaction, simplified]
  have acc: "accounted (tracked_requests s) (writer_promises (ws_writer s) (ws_writers s)) (ws_heap s)"
    using i(7) by (simp add: ws_tracked_def)
  have m: "mset (tracked_requests s) = add_mset d (mset (tracked_requests s1))"
    using d by (simp add: tracked_requests_def s1 rem)
  then show "ws_tracked s1"
    using h accounted_resolve [OF acc m] accounted_reject [OF acc m] by (auto simp: ws_tracked_def s1)
  have "d \<in> set (tracked_requests s)" using d by (simp add: tracked_requests_def)
  then have "d \<notin> set (writer_promises (ws_writer s) (ws_writers s))" using acc by (auto simp: accounted_def)
  moreover have "h_pending h = h_pending (ws_heap s) - {d}" using h by auto
  ultimately show "ready_pending s1 = ready_pending s" "ws_closed_ok s1"
    using i(8) by (auto simp: ready_pending_def ws_closed_ok_def s1 rem)
  show "ws_reactions_ok s1" using i(4) dis rem by (simp add: s1 ws_reactions_ok_def)
  show "ws_writers_ok s1" using i(5) by (simp add: s1 ws_writers_ok_def)
  show "ws_log_ok s1" using i(3) by (simp add: s1 ws_log_ok_def)
  show "ws_later s s1" using h by (auto simp: ws_later_def s1)
qed

lemma refreshBackpressure_ok:
  assumes "ws_writers_ok s" "ws_tracked s" "ws_closed_ok s" "ws_ready s"
  shows "\<exists>h ws b. (if \<not> ws_closing s \<and> ws_state s = WWritable
        then writableStreamUpdateBackpressure (writableStreamDefaultControllerGetBackpressure s) s else Some s) =
      Some (s\<lparr>ws_heap := h, ws_writers := ws, ws_backpressure := b\<rparr>) \<and>
      h_extends (ws_heap s) h \<and>
      (\<not> ws_closing s \<and> ws_state s = WWritable \<longrightarrow> b = writableStreamDefaultControllerGetBackpressure s) \<and>
      ws_writers_ok (s\<lparr>ws_heap := h, ws_writers := ws, ws_backpressure := b\<rparr>) \<and>
      ws_tracked (s\<lparr>ws_heap := h, ws_writers := ws, ws_backpressure := b\<rparr>) \<and>
      ws_closed_ok (s\<lparr>ws_heap := h, ws_writers := ws, ws_backpressure := b\<rparr>) \<and>
      ws_ready (s\<lparr>ws_heap := h, ws_writers := ws, ws_backpressure := b\<rparr>)"
proof (cases "\<not> ws_closing s \<and> ws_state s = WWritable")
  case True
  then show ?thesis
    using updateBackpressure_ok [of s "writableStreamDefaultControllerGetBackpressure s"] assms by fastforce
next
  case False
  then show ?thesis using assms
    by (intro exI [of _ "ws_heap s"] exI [of _ "ws_writers s"] exI [of _ "ws_backpressure s"]) auto
qed

context sink_contract
begin

lemma write_failed_ok:
  assumes "ws_inv s" "WriteReaction \<in> set (ws_reactions s)"
  shows "\<exists>s'. ws_reaction K WriteReaction (Failed e) (s\<lparr>ws_reactions := remove1 WriteReaction (ws_reactions s)\<rparr>) = Some s' \<and>
              ws_top s' \<and> ws_later s s'"
proof -
  note i = ws_invD [OF assms(1)]
  obtain d c n q where f: "ws_inFlightWriteRequest s = Some d" "ws_queue s = (Chunk c, n) # q"
    "ws_inFlightCloseRequest s = None" "ws_started s" "ws_state s = WWritable \<or> ws_state s = WErroring"
    using write_in_flight [OF assms] .
  define s1 where "s1 = s\<lparr>ws_reactions := remove1 WriteReaction (ws_reactions s),
      ws_heap := h_reject d e (ws_heap s), ws_inFlightWriteRequest := None\<rparr>"
  note p = write_done_parts [OF assms f(1) disjI2 [OF refl] s1_def]
  have "ws_failing s1"
    unfolding ws_failing_def
  proof (intro conjI)
    show "ws_state s1 = WWritable \<and> ws_storedError s1 = JUndefined \<or> ws_state s1 = WErroring \<and> \<not> ready_pending s1"
      unfolding p(2) using f(5) i(1,9) by (auto simp: s1_def ws_requests_ok_def ws_ready_def)
    show "ws_inflight_ok s1" using f by (simp add: s1_def ws_inflight_ok_def)
    show "ws_abort_armed s1" using f i(1)
      by (auto simp: s1_def ws_requests_ok_def ws_abort_armed_def cong: option.case_cong)
    show "c_inv (ws_container s1)" "valid_HWM (ws_strategyHWM s1)" using i(2) by (simp_all add: s1_def ws_queue_ok_def)
  qed (rule p)+
  moreover define s2 where "s2 = (if ws_state s = WWritable then writableStreamDefaultControllerClearAlgorithms s1 else s1)"
  moreover have "ws_state s = WWritable \<Longrightarrow> ws_pendingAbortRequest s1 = None"
    using i(1) by (simp add: s1_def ws_requests_ok_def)
  ultimately have "ws_failing s2" by (simp add: ws_failing_clear)
  moreover have "ws_started s2" "\<not> writableStreamHasOperationMarkedInFlight s2" "ws_close_released s2" "ws_later s1 s2"
    using f by (simp_all add: s2_def s1_def writableStreamDefaultControllerClearAlgorithms_def ws_query_defs
        ws_close_released_def ws_later_def)
  moreover have "ws_reaction K WriteReaction (Failed e) (s\<lparr>ws_reactions := remove1 WriteReaction (ws_reactions s)\<rparr>) =
      writableStreamDealWithRejection K e s2"
    using f by (cases s) (auto simp: s2_def s1_def writableStreamDefaultControllerClearAlgorithms_def
        writableStreamFinishInFlightWriteWithError_def ws_reject_def Let_def)
  ultimately show ?thesis
    using dealWithRejection_ok [of s2 e] ws_topI ws_sync_later p(7) by (metis ws_later_trans)
qed

lemma write_succeeded_ok:
  assumes "ws_inv s" "WriteReaction \<in> set (ws_reactions s)"
  shows "\<exists>s'. ws_reaction K WriteReaction Succeeded (s\<lparr>ws_reactions := remove1 WriteReaction (ws_reactions s)\<rparr>) = Some s' \<and>
              ws_top s' \<and> ws_later s s'"
proof -
  note i = ws_invD [OF assms(1)]
  obtain d c n q where f: "ws_inFlightWriteRequest s = Some d" "ws_queue s = (Chunk c, n) # q"
    "ws_inFlightCloseRequest s = None" "ws_started s" "ws_state s = WWritable \<or> ws_state s = WErroring"
    using write_in_flight [OF assms] .
  define s1 where "s1 = s\<lparr>ws_reactions := remove1 WriteReaction (ws_reactions s),
      ws_heap := h_resolve d () (ws_heap s), ws_inFlightWriteRequest := None\<rparr>"
  note p = write_done_parts [OF assms f(1) disjI1 [OF refl] s1_def]
  obtain k where k: "c_dequeue (ws_container s) = Some (Chunk c, k)" "c_inv k" "c_queue k = q"
    using c_dequeue_inv [of "ws_container s"] i(2) f(2) by (auto simp: ws_queue_ok_def)
  define s2 where "s2 = s1\<lparr>ws_container := k\<rparr>"
  have p2: "ws_writers_ok s2" "ws_tracked s2" "ws_closed_ok s2" "ws_reactions_ok s2" "ws_log_ok s2"
    using p by (simp_all add: s2_def ws_writers_ok_def ws_tracked_def tracked_requests_def ws_closed_ok_def
        ws_reactions_ok_def ws_log_ok_def)
  have rd: "ws_ready s2" using p(2) i(9) f(5)
    by (simp add: ws_ready_def ready_pending_def s2_def s1_def ws_query_defs)
  let ?bp = "writableStreamDefaultControllerGetBackpressure s2"
  let ?up = "if \<not> ws_closing s2 \<and> ws_state s = WWritable then writableStreamUpdateBackpressure ?bp s2 else Some s2"
  have "ws_state s2 = ws_state s" by (simp add: s2_def s1_def)
  then obtain h ws b where hw: "?up = Some (s2\<lparr>ws_heap := h, ws_writers := ws, ws_backpressure := b\<rparr>)"
      "h_extends (ws_heap s2) h" "\<not> ws_closing s2 \<and> ws_state s = WWritable \<longrightarrow> b = ?bp"
      "ws_writers_ok (s2\<lparr>ws_heap := h, ws_writers := ws, ws_backpressure := b\<rparr>)"
      "ws_tracked (s2\<lparr>ws_heap := h, ws_writers := ws, ws_backpressure := b\<rparr>)"
      "ws_closed_ok (s2\<lparr>ws_heap := h, ws_writers := ws, ws_backpressure := b\<rparr>)"
      "ws_ready (s2\<lparr>ws_heap := h, ws_writers := ws, ws_backpressure := b\<rparr>)"
    using refreshBackpressure_ok [OF p2(1-3) rd] by auto
  define s3 where "s3 = s2\<lparr>ws_heap := h, ws_writers := ws, ws_backpressure := b\<rparr>"
  have act: "ws_active s3"
    unfolding ws_active_def
  proof (intro conjI)
    show "ws_requests_ok s3" using i(1) f
      by (auto simp: s3_def s2_def s1_def ws_requests_ok_def ws_inflight_ok_def ws_abort_armed_def
          cong: option.case_cong)
    show "ws_queue_ok s3" using i(2) f k hw(3)
      by (auto simp: s3_def s2_def s1_def ws_queue_ok_def ws_query_defs)
    show "ws_log_ok s3" using p2(5) by (simp add: s3_def ws_log_ok_def)
    show "ws_reactions_ok s3" using p2(4) by (simp add: s3_def ws_reactions_ok_def)
  qed (use hw in \<open>simp_all add: s3_def\<close>)
  have st: "ws_state s3 = WWritable \<or> ws_state s3 = WErroring" "ws_inFlightCloseRequest s3 = None"
      "ws_close_released s3"
    using f by (simp_all add: s3_def s2_def s1_def ws_close_released_def)
  have "h_extends (ws_heap s) h" using h_extends_trans [OF _ hw(2), of "ws_heap s"] by (simp add: s2_def s1_def)
  then have lat: "ws_later s s3" using f(5) by (auto simp: ws_later_def s3_def s2_def s1_def)
  have "ws_reaction K WriteReaction Succeeded (s\<lparr>ws_reactions := remove1 WriteReaction (ws_reactions s)\<rparr>) =
      Option.bind ?up (writableStreamDefaultControllerAdvanceQueueIfNeeded K)"
    using f k by (cases s) (auto simp: s2_def s1_def writableStreamFinishInFlightWrite_def ws_resolve_def
        writableStreamCloseQueuedOrInFlight_def Let_def)
  then have "ws_reaction K WriteReaction Succeeded (s\<lparr>ws_reactions := remove1 WriteReaction (ws_reactions s)\<rparr>) =
      writableStreamDefaultControllerAdvanceQueueIfNeeded K s3"
    unfolding hw(1) by (simp add: s3_def)
  then show ?thesis
    using advanceQueue_ok [OF act st(1,2)] ws_topI [OF _ _ st(3)] lat ws_sync_later ws_later_trans by metis
qed

end

lemma close_in_flight:
  assumes "ws_inv s" "CloseReaction \<in> set (ws_reactions s)"
  obtains d where "ws_inFlightCloseRequest s = Some d" "ws_inFlightWriteRequest s = None" "ws_started s"
    "ws_closeRequest s = None" "ws_queue s = []" "ws_writeRequests s = []"
    "ws_state s = WWritable \<or> ws_state s = WErroring"
proof -
  note i = ws_invD [OF assms(1)]
  obtain d where d: "ws_inFlightCloseRequest s = Some d" using i(4) assms(2) by (auto simp: ws_reactions_ok_def)
  then have st: "ws_state s = WWritable \<or> ws_state s = WErroring" using not_idle [OF i(1)] by (simp add: ws_idle_def)
  then have "ws_inflight_ok s" using i(1) by (auto simp: ws_requests_ok_def)
  then show thesis using that d st by (cases "ws_inFlightWriteRequest s") (simp_all add: ws_inflight_ok_def)
qed

text \<open>The close in flight settles, and with it a pending abort request.\<close>

lemma close_done_parts:
  assumes top: "ws_top s" and r: "CloseReaction \<in> set (ws_reactions s)"
    and d: "ws_inFlightCloseRequest s = Some d"
    and ds: "ds = d # opt_list (map_option ar_deferred (ws_pendingAbortRequest s))"
    and h: "h = fold (\<lambda>p. h_resolve p ()) ds (ws_heap s) \<or> h = fold (\<lambda>p. h_reject p e) ds (ws_heap s)"
    and s1: "s1 = s\<lparr>ws_reactions := remove1 CloseReaction (ws_reactions s), ws_heap := h,
      ws_inFlightCloseRequest := None, ws_pendingAbortRequest := None\<rparr>"
  shows "ws_tracked s1" "ready_pending s1 = ready_pending s" "ws_closed_ok s1" "ws_reactions_ok s1"
    "ws_writers_ok s1" "ws_log_ok s1" "h_extends (ws_heap s) h"
proof -
  note i = ws_invD [OF top [unfolded ws_top_def, THEN conjunct1]]
  have dis: "distinct (ws_reactions s)" using i(4) by (simp add: ws_reactions_ok_def)
  note rem = remove1_reaction [OF dis, of CloseReaction, simplified]
  have acc: "accounted (tracked_requests s) (writer_promises (ws_writer s) (ws_writers s)) (ws_heap s)"
    using i(7) by (simp add: ws_tracked_def)
  have m: "mset (tracked_requests s) = mset ds + mset (tracked_requests s1)"
    using d by (simp add: tracked_requests_def s1 ds rem)
  then show "ws_tracked s1"
    using h accounted_resolve_all [OF acc m] accounted_reject_all [OF acc m] by (auto simp: ws_tracked_def s1)
  have "set ds \<subseteq> set (tracked_requests s)" using d by (auto simp: tracked_requests_def ds)
  then have "set ds \<inter> set (writer_promises (ws_writer s) (ws_writers s)) = {}" using acc by (auto simp: accounted_def)
  moreover have "h_pending h = h_pending (ws_heap s) - set ds" using h by (elim disjE) simp_all
  ultimately show "ready_pending s1 = ready_pending s" "ws_closed_ok s1"
    using i(8) by (auto simp: ready_pending_def ws_closed_ok_def s1 rem)
  show "ws_reactions_ok s1" using i(4) dis rem by (simp add: s1 ws_reactions_ok_def)
  show "ws_writers_ok s1" using i(5) by (simp add: s1 ws_writers_ok_def)
  show "ws_log_ok s1" using i(3) top d by (simp add: s1 ws_log_ok_def ws_top_def ws_close_released_def)
  show "h_extends (ws_heap s) h" using h by (elim disjE) (simp_all only: h_extends_simps h_extends_refl)
qed

lemma close_succeeded_ok:
  assumes top: "ws_top s" and r: "CloseReaction \<in> set (ws_reactions s)"
  shows "\<exists>s'. ws_reaction K CloseReaction Succeeded (s\<lparr>ws_reactions := remove1 CloseReaction (ws_reactions s)\<rparr>) = Some s' \<and>
              ws_top s' \<and> ws_later s s'"
proof -
  have inv: "ws_inv s" using top by (simp add: ws_top_def)
  note i = ws_invD [OF inv]
  obtain d where f: "ws_inFlightCloseRequest s = Some d" "ws_inFlightWriteRequest s = None" "ws_started s"
    "ws_closeRequest s = None" "ws_queue s = []" "ws_writeRequests s = []"
    "ws_state s = WWritable \<or> ws_state s = WErroring"
    using close_in_flight [OF inv r] .
  let ?h = "fold (\<lambda>p. h_resolve p ()) (d # opt_list (map_option ar_deferred (ws_pendingAbortRequest s))) (ws_heap s)"
  define s1 where "s1 = s\<lparr>ws_reactions := remove1 CloseReaction (ws_reactions s), ws_heap := ?h,
      ws_inFlightCloseRequest := None, ws_pendingAbortRequest := None\<rparr>"
  note p = close_done_parts [OF top r f(1) refl disjI1 [OF refl] s1_def]
  define h where "h = (case ws_writer s of Some w \<Rightarrow> h_resolve (wr_closedPromise (ws_writers s ! w)) () ?h | None \<Rightarrow> ?h)"
  define s2 where "s2 = s1\<lparr>ws_state := WClosed, ws_storedError := JUndefined, ws_heap := h\<rparr>"
  have w: "ws_state s = WWritable \<Longrightarrow> ws_storedError s = JUndefined \<and> ws_pendingAbortRequest s = None"
    using i(1) by (simp add: ws_requests_ok_def)
  have eq: "ws_reaction K CloseReaction Succeeded (s\<lparr>ws_reactions := remove1 CloseReaction (ws_reactions s)\<rparr>) = Some s2"
    using f w by (cases s; cases "ws_writer s"; cases "ws_pendingAbortRequest s")
      (auto simp: s2_def s1_def h_def writableStreamFinishInFlightClose_def ws_resolve_def Let_def)
  have acc: "accounted (tracked_requests s1) (writer_promises (ws_writer s) (ws_writers s)) ?h"
    using p(1) by (simp add: ws_tracked_def) (simp add: s1_def)
  have na: "\<not> abort_outstanding (ws_reactions s1)" using no_abort_outstanding [OF p(4)] f(7) by (auto simp: s1_def)
  have "ws_inv s2"
  proof (rule ws_invI)
    show "ws_requests_ok s2" using f by (simp add: s2_def s1_def ws_requests_ok_def ws_idle_def)
    show "ws_queue_ok s2" using i(2) by (simp add: s2_def s1_def ws_queue_ok_def)
    show "ws_log_ok s2" using p(6) top f
      by (simp add: s2_def s1_def ws_log_ok_def ws_top_def ws_close_released_def)
    show "ws_reactions_ok s2" using p(4) na by (simp add: s2_def ws_reactions_ok_def)
    show "ws_writers_ok s2" using p(5) by (simp add: s2_def ws_writers_ok_def)
    show "ws_quiet s2" by (simp add: s2_def ws_quiet_def)
    have "accounted (tracked_requests s1) (writer_promises (ws_writer s) (ws_writers s)) h"
      using acc by (cases "ws_writer s") (simp_all add: h_def accounted_settle_other del: fold_simps)
    then show "ws_tracked s2" by (simp add: s2_def s1_def ws_tracked_def tracked_requests_def)
    show "ws_closed_ok s2" by (cases "ws_writer s") (simp_all add: s2_def s1_def ws_closed_ok_def h_def)
    show "ws_ready s2" using p(2) i(9) f
      by (cases "ws_writer s")
         (auto simp: s2_def s1_def ws_ready_def ready_pending_def h_def ws_query_defs simp del: fold_simps)
  qed
  moreover have "ws_close_released s2" by (simp add: s2_def s1_def ws_close_released_def)
  moreover have "ws_later s s2" using p(7) f(7)
    by (cases "ws_writer s") (auto simp: s2_def s1_def ws_later_def h_def simp del: fold_simps)
  ultimately show ?thesis using eq by (simp add: ws_top_def)
qed

lemma abort_reaction_ok:
  assumes top: "ws_top s" and r: "AbortReaction d \<in> set (ws_reactions s)"
  shows "\<exists>s'. ws_reaction K (AbortReaction d) out (s\<lparr>ws_reactions := remove1 (AbortReaction d) (ws_reactions s)\<rparr>) = Some s' \<and>
              ws_top s' \<and> ws_later s s'"
proof -
  have inv: "ws_inv s" using top by (simp add: ws_top_def)
  note i = ws_invD [OF inv]
  have st: "ws_state s = WErrored" using i(4) r by (auto simp: ws_reactions_ok_def abort_outstanding_def)
  have idle: "ws_idle s" using i(1) st by (simp add: ws_requests_ok_def)
  define h where "h = (case out of Succeeded \<Rightarrow> h_resolve d () (ws_heap s) | Failed e \<Rightarrow> h_reject d e (ws_heap s))"
  define s1 where "s1 = s\<lparr>ws_reactions := remove1 (AbortReaction d) (ws_reactions s), ws_heap := h\<rparr>"
  have acc: "accounted (tracked_requests s) (writer_promises (ws_writer s) (ws_writers s)) (ws_heap s)"
    using i(7) by (simp add: ws_tracked_def)
  have m: "mset (tracked_requests s) = add_mset d (mset (tracked_requests s1))"
    using remove1_deferred [OF r] by (simp add: tracked_requests_def s1_def)
  then have "ws_tracked s1"
    using accounted_resolve [OF acc m] accounted_reject [OF acc m]
    by (cases out) (simp_all add: ws_tracked_def s1_def h_def)
  moreover have "ws_queue_ok s1" "ws_log_ok s1" "ws_writers_ok s1" "ws_idle s1"
    using i(2,3,5) idle by (simp_all add: s1_def ws_queue_ok_def ws_log_ok_def ws_writers_ok_def ws_idle_def ws_query_defs)
  moreover have "ws_reactions_ok s1" using i(4) st by (simp add: s1_def ws_reactions_ok_def)
  moreover have "\<not> ready_pending s1" using i(9) st
    by (cases out) (auto simp: ws_ready_def ready_pending_def s1_def h_def)
  ultimately obtain s' where s': "writableStreamRejectCloseAndClosedPromiseIfNeeded s1 = Some s'" "ws_inv s'" "ws_sync s1 s'"
    using reject_close_ok [of s1] st by (auto simp: s1_def)
  have "ws_close_released s1" using idle by (simp add: s1_def ws_close_released_def ws_idle_def)
  moreover have "ws_later s s1" using st by (cases out) (simp_all add: ws_later_def s1_def h_def)
  moreover have "ws_reaction K (AbortReaction d) out (s\<lparr>ws_reactions := remove1 (AbortReaction d) (ws_reactions s)\<rparr>) =
      writableStreamRejectCloseAndClosedPromiseIfNeeded s1"
    by (cases s; cases out) (simp_all add: s1_def h_def ws_resolve_def ws_reject_def)
  ultimately show ?thesis
    using s' ws_topI ws_sync_later ws_later_trans by metis
qed

context sink_contract
begin

lemma close_failed_ok:
  assumes top: "ws_top s" and r: "CloseReaction \<in> set (ws_reactions s)"
  shows "\<exists>s'. ws_reaction K CloseReaction (Failed e) (s\<lparr>ws_reactions := remove1 CloseReaction (ws_reactions s)\<rparr>) = Some s' \<and>
              ws_top s' \<and> ws_later s s'"
proof -
  have inv: "ws_inv s" using top by (simp add: ws_top_def)
  note i = ws_invD [OF inv]
  obtain d where f: "ws_inFlightCloseRequest s = Some d" "ws_inFlightWriteRequest s = None" "ws_started s"
    "ws_closeRequest s = None" "ws_queue s = []" "ws_writeRequests s = []"
    "ws_state s = WWritable \<or> ws_state s = WErroring"
    using close_in_flight [OF inv r] .
  let ?h = "fold (\<lambda>p. h_reject p e) (d # opt_list (map_option ar_deferred (ws_pendingAbortRequest s))) (ws_heap s)"
  define s1 where "s1 = s\<lparr>ws_reactions := remove1 CloseReaction (ws_reactions s), ws_heap := ?h,
      ws_inFlightCloseRequest := None, ws_pendingAbortRequest := None\<rparr>"
  note p = close_done_parts [OF top r f(1) refl disjI2 [OF refl] s1_def]
  have "ws_failing s1"
    unfolding ws_failing_def
  proof (intro conjI)
    show "ws_state s1 = WWritable \<and> ws_storedError s1 = JUndefined \<or> ws_state s1 = WErroring \<and> \<not> ready_pending s1"
      unfolding p(2) using f(7) i(1,9) by (auto simp: s1_def ws_requests_ok_def ws_ready_def)
    show "ws_inflight_ok s1" using f by (simp add: s1_def ws_inflight_ok_def)
    show "ws_abort_armed s1" by (simp add: s1_def ws_abort_armed_def)
    show "c_inv (ws_container s1)" "valid_HWM (ws_strategyHWM s1)" using i(2) by (simp_all add: s1_def ws_queue_ok_def)
  qed (rule p)+
  moreover have "ws_started s1" "\<not> writableStreamHasOperationMarkedInFlight s1" "ws_close_released s1"
    using f by (simp_all add: s1_def ws_query_defs ws_close_released_def)
  moreover have "ws_later s s1" using p(7) f(7) by (auto simp: s1_def ws_later_def)
  moreover have "ws_reaction K CloseReaction (Failed e) (s\<lparr>ws_reactions := remove1 CloseReaction (ws_reactions s)\<rparr>) =
      writableStreamDealWithRejection K e s1"
    using f by (cases s; cases "ws_pendingAbortRequest s")
      (auto simp: s1_def writableStreamFinishInFlightCloseWithError_def ws_reject_def Let_def)
  ultimately show ?thesis
    using dealWithRejection_ok [of s1 e] ws_topI ws_sync_later by (metis ws_later_trans)
qed

lemma ws_react_ok:
  assumes "ws_top s"
  shows "\<exists>s'. ws_react K r out s = Some s' \<and> ws_top s' \<and> ws_later s s'"
proof (cases "r \<in> set (ws_reactions s)")
  case True
  have inv: "ws_inv s" using assms by (simp add: ws_top_def)
  show ?thesis
  proof (cases r)
    case StartReaction
    then show ?thesis using start_reaction_ok [OF inv, of out] True by (simp add: ws_react_def)
  next
    case WriteReaction
    then show ?thesis using write_succeeded_ok [OF inv] write_failed_ok [OF inv] True
      by (cases out) (simp_all add: ws_react_def del: ws_reaction.simps)
  next
    case CloseReaction
    then show ?thesis using close_succeeded_ok [OF assms] close_failed_ok [OF assms] True
      by (cases out) (simp_all add: ws_react_def del: ws_reaction.simps)
  next
    case (AbortReaction d)
    then show ?thesis using abort_reaction_ok [OF assms, of d K out] True
      by (simp add: ws_react_def del: ws_reaction.simps)
  qed
qed (use assms in \<open>simp add: ws_react_def\<close>)

lemma ws_step_ok:
  assumes "ws_top s"
  shows "\<exists>s'. ws_step K e s = Some s' \<and> ws_top s' \<and> ws_later s s'"
proof (cases e)
  case (Call c)
  obtain t where t: "ws_call K c s = Some t" "ws_inv t" "ws_sync s t"
    using ws_call_ok [of s c] assms by (auto simp: ws_top_def)
  then have "ws_top t" using ws_topI [OF t(2,3)] assms by (simp add: ws_top_def)
  then show ?thesis using Call t ws_sync_later by simp
qed (use ws_react_ok [OF assms] in simp)

lemma ws_run_ok:
  assumes "ws_top s"
  shows "\<exists>s'. ws_run K es s = Some s' \<and> ws_top s' \<and> ws_later s s'"
  using assms
proof (induction es arbitrary: s)
  case (Cons e es)
  obtain t where "ws_step K e s = Some t" "ws_top t" "ws_later s t" using ws_step_ok [OF Cons.prems] by blast
  then show ?case using Cons.IH [of t] ws_later_trans [of s t] by auto
qed simp

end

end
