(* ===== verification/Writable_Properties.thy ===== *)
theory Writable_Properties
  imports Writable_Operations
begin

text \<open>
  What the writable stream promises to its users, for every program run against it.

  \<open>ws_execute P n hwm es\<close> constructs a stream over the sink \<open>nested_sink P n\<close> and runs the
  events \<open>es\<close> on it: calls of the public methods, and the settlement, in any order, of the
  promises the sink returned. The callbacks of \<open>P\<close> call the public methods themselves.
\<close>

section \<open>Construction and nested callbacks\<close>

lemma init_ok:
  assumes "valid_HWM h" "s = initializeWritableStream h" "b = writableStreamDefaultControllerGetBackpressure s"
  shows "ws_inv (s\<lparr>ws_backpressure := b, ws_reactions := [StartReaction]\<rparr>)"
  using assms
  by (auto simp: initializeWritableStream_def ws_inv_def ws_control_def ws_request_defs ws_queue_ok_def
      ws_log_ok_def ws_reactions_ok_def ws_writers_ok_def ws_quiet_def ws_tracked_def tracked_requests_def
      ws_closed_ok_def ws_ready_def ready_pending_def ws_query_defs accounted_def)

context sink_contract
begin

lemma construction_ok:
  "\<exists>r. new_WritableStream K hwm = Some r \<and> (\<forall>s. r = Inr s \<longrightarrow> ws_top s)"
proof (cases "extractHighWaterMark hwm (Fin 1)")
  case (Inl e)
  then show ?thesis by (simp add: new_WritableStream_def)
next
  case (Inr h)
  have "valid_HWM (Fin 1)" by (simp add: valid_HWM_def)
  then have v: "valid_HWM h" using Inr by (rule extractHighWaterMark_valid [rotated])
  let ?i = "initializeWritableStream h :: 'c ws"
  let ?b = "writableStreamDefaultControllerGetBackpressure ?i"
  let ?s = "?i\<lparr>ws_backpressure := ?b, ws_reactions := [StartReaction]\<rparr>"
  have inv: "ws_inv ?s" using init_ok [OF v refl refl] by simp
  then obtain r t where t: "k_start K ?s = Some (r, t)" "ws_inv t" "ws_sync ?s t" using start_ok by blast
  have "ws_close_released ?s" by (simp add: ws_close_released_def initializeWritableStream_def)
  then have "ws_top t" using ws_topI [OF t(2,3)] by simp
  moreover have "new_WritableStream K hwm = Some (case r of Some e \<Rightarrow> Inl e | None \<Rightarrow> Inr t)"
    using Inr t(1) by (simp add: new_WritableStream_def setUpWritableStreamDefaultController_def
        writableStreamUpdateBackpressure_def initializeWritableStream_def ws_query_defs)
  ultimately show ?thesis by (cases r) simp_all
qed

end

lemma nested_sink_contract: "sink_contract (nested_sink P n)"
proof (induction n)
  case 0
  show ?case by unfold_locales simp_all
next
  case (Suc n)
  show ?case
    by unfold_locales (use sink_contract.ws_calls_ok [OF Suc] in \<open>fastforce+\<close>)
qed

interpretation nested: sink_contract "nested_sink P n" for P n
  by (rule nested_sink_contract)

section \<open>Executions\<close>

definition ws_execute ::
    "'c program \<Rightarrow> nat \<Rightarrow> number option \<Rightarrow> 'c event list \<Rightarrow> (js_value + 'c ws) option" where
  "ws_execute P n hwm es = do {
     r \<leftarrow> new_WritableStream (nested_sink P n) hwm;
     (case r of
        Inl e \<Rightarrow> Some (Inl e)
      | Inr s \<Rightarrow> map_option Inr (ws_run (nested_sink P n) es s))
   }"

lemma execute_total: "\<exists>r. ws_execute P n hwm es = Some r \<and> (\<forall>s. r = Inr s \<longrightarrow> ws_top s)"
proof -
  obtain r where r: "new_WritableStream (nested_sink P n) hwm = Some r" "\<forall>s. r = Inr s \<longrightarrow> ws_top s"
    using nested.construction_ok by blast
  show ?thesis
  proof (cases r)
    case (Inl e)
    then show ?thesis using r by (simp add: ws_execute_def)
  next
    case (Inr s)
    then show ?thesis using r nested.ws_run_ok [of s] by (fastforce simp: ws_execute_def)
  qed
qed

lemma execute_inv: "ws_execute P n hwm es = Some (Inr s) \<Longrightarrow> ws_inv s"
  using execute_total [of P n hwm es] by (auto simp: ws_top_def)

section \<open>Consequences of the invariant\<close>

lemma log_ok_shape:
  "log_ok l \<Longrightarrow> \<exists>fin. l = map SinkWrite (log_writes l) @ fin \<and>
     (fin = [] \<or> fin = [SinkClose] \<or> (\<exists>r. fin = [SinkAbort r]))"
  by (induction l rule: log_ok.induct) auto

text \<open>When no promise of the sink is outstanding, nobody waits for a request.\<close>

lemma quiescent_requests:
  assumes "ws_inv s" "ws_reactions s = []"
  shows "tracked_requests s = []" "ws_state s = WWritable \<Longrightarrow> ws_queue s = []" "ws_state s \<noteq> WErroring"
proof -
  note i = ws_invD [OF assms(1)]
  have fl: "ws_started s" "ws_inFlightWriteRequest s = None" "ws_inFlightCloseRequest s = None"
    using i(4) assms(2) by (simp_all add: ws_reactions_ok_def)
  show e: "ws_state s \<noteq> WErroring" using i(6) fl by (auto simp: ws_quiet_def)
  show q: "ws_queue s = []" if "ws_state s = WWritable" using i(6) fl that by (simp add: ws_quiet_def)
  show "tracked_requests s = []"
  proof (cases "ws_state s")
    case WWritable
    then show ?thesis using q fl i(1,2) assms(2)
      by (simp add: tracked_requests_def ws_queue_ok_def ws_requests_ok_def split: if_splits)
  qed (use e i(1) assms(2) in \<open>simp_all add: tracked_requests_def ws_requests_ok_def ws_idle_def\<close>)
qed

lemma quiescent_pending:
  assumes "ws_inv s" "ws_reactions s = []" "d \<in> h_pending (ws_heap s)"
  obtains w where "ws_writer s = Some w" "ws_state s = WWritable"
    "d = wr_closedPromise (ws_writers s ! w) \<or>
     d = wr_readyPromise (ws_writers s ! w) \<and> writableStreamDefaultControllerGetBackpressure s"
proof -
  note i = ws_invD [OF assms(1)]
  have t: "accounted [] (writer_promises (ws_writer s) (ws_writers s)) (ws_heap s)"
    using i(7) quiescent_requests(1) [OF assms(1,2)] by (simp add: ws_tracked_def)
  then obtain w where w: "ws_writer s = Some w"
    using assms(3) by (cases "ws_writer s") (auto simp: accounted_def)
  have d: "d = wr_readyPromise (ws_writers s ! w) \<or> d = wr_closedPromise (ws_writers s ! w)"
    using t assms(3) w by (auto simp: accounted_def)
  have "ws_state s = WWritable"
    using d w assms(3) i(8,9) quiescent_requests(3) [OF assms(1,2)] assms(2)
    by (cases "ws_state s") (auto simp: ws_closed_ok_def ws_ready_def ready_pending_def)
  moreover have "d = wr_readyPromise (ws_writers s ! w) \<Longrightarrow> writableStreamDefaultControllerGetBackpressure s"
    using w assms(3) i(2,9) by (auto simp: ws_ready_def ready_pending_def ws_queue_ok_def)
  ultimately show thesis using that w d by blast
qed

lemma empty_queue_backpressure:
  assumes "ws_inv s" "ws_queue s = []" "writableStreamDefaultControllerGetBackpressure s"
  shows "ws_strategyHWM s = Fin 0"
  using ws_invD(2) [OF assms(1)] assms(2,3)
  by (auto simp: ws_queue_ok_def ws_query_defs c_inv_def valid_HWM_def)

lemma startErroring_pendingAbort:
  assumes "writableStreamStartErroring K e s = Some s'" "ws_pendingAbortRequest s = None"
  shows "ws_pendingAbortRequest s' = None"
proof -
  have reject: "ws_pendingAbortRequest u = None"
    if "writableStreamRejectCloseAndClosedPromiseIfNeeded t = Some u" "ws_pendingAbortRequest t = None" for t u :: "'a ws"
    using that by (auto simp: writableStreamRejectCloseAndClosedPromiseIfNeeded_def ws_reject_def
        split: option.splits bind_splits)
  have ensure: "ws_pendingAbortRequest (writableStreamDefaultWriterEnsureReadyPromiseRejected w e t) =
      ws_pendingAbortRequest t" for w and t :: "'a ws"
    by (simp add: writableStreamDefaultWriterEnsureReadyPromiseRejected_def ws_reject_def ws_newDeferred_def
        ws_set_ready_def Let_def)
  show ?thesis using assms
    by (auto simp: writableStreamStartErroring_def writableStreamFinishErroring_def ensure Let_def
        WritableStreamDefaultController_errorSteps_def split: option.splits bind_splits if_splits dest!: reject)
qed

section \<open>The theorems\<close>

text \<open>
  A program for the witnesses: the sink's \<^verbatim>\<open>write\<close> writes another chunk when it is given 0,
  every chunk has size 1.
\<close>

definition echo_program :: "nat program" where
  "echo_program =
     \<lparr>p_start = (\<lambda>s. [GetWriter]), p_size = (\<lambda>c s. []), p_sizeOf = (\<lambda>c s. Inr (Fin 1)),
      p_write = (\<lambda>c s. if c = 0 then [WriterWrite 0 7] else []), p_close = (\<lambda>s. []), p_abort = (\<lambda>r s. [])\<rparr>"


text \<open>
  C2. The sink sees the chunks in order and exactly once, and its protocol is respected:
  the calls it has received are \<^verbatim>\<open>write\<close> of the first accepted chunks, in the order they were
  accepted, followed by at most one \<^verbatim>\<open>close\<close> or \<^verbatim>\<open>abort\<close>, after which it is never called;
  \<^verbatim>\<open>close\<close> is called only when every accepted chunk has been written.
\<close>

theorem writable_sink_protocol:
  assumes "ws_execute P n hwm es = Some (Inr s)"
  shows "\<exists>written waiting fin.
    ws_accepted s = written @ waiting \<and> ws_sinkLog s = map SinkWrite written @ fin \<and>
    (fin = [] \<or> fin = [SinkClose] \<and> waiting = [] \<or> (\<exists>r. fin = [SinkAbort r]))"
proof -
  have l: "ws_log_ok s" using ws_invD(3) [OF execute_inv [OF assms]] .
  obtain waiting where w: "ws_accepted s = log_writes (ws_sinkLog s) @ waiting" using l by (auto simp: ws_log_ok_def)
  have "log_ok (ws_sinkLog s)" using l by (simp add: ws_log_ok_def)
  from log_ok_shape [OF this] obtain fin where fin: "ws_sinkLog s = map SinkWrite (log_writes (ws_sinkLog s)) @ fin"
      "fin = [] \<or> fin = [SinkClose] \<or> (\<exists>r. fin = [SinkAbort r])"
    by blast
  have "waiting = []" if "fin = [SinkClose]"
  proof -
    have "SinkClose \<in> set (ws_sinkLog s)" using that fin(1) by (metis in_set_conv_decomp)
    then show ?thesis using l w by (simp add: ws_log_ok_def)
  qed
  then show ?thesis using w fin by blast
qed

theorem writable_sink_protocol_witness:
  "\<exists>s. ws_execute echo_program 2 None
       [Call (WriterWrite 0 0), Settle StartReaction Succeeded, Settle WriteReaction Succeeded,
        Call (WriterClose 0), Settle WriteReaction Succeeded] = Some (Inr s) \<and>
     ws_sinkLog s = [SinkWrite 0, SinkWrite 7, SinkClose] \<and>
     (\<exists>written waiting fin.
        ws_accepted s = written @ waiting \<and> ws_sinkLog s = map SinkWrite written @ fin \<and>
        (fin = [] \<or> fin = [SinkClose] \<and> waiting = [] \<or> (\<exists>r. fin = [SinkAbort r])))"
proof -
  let ?es = "[Call (WriterWrite 0 0), Settle StartReaction Succeeded, Settle WriteReaction Succeeded,
        Call (WriterClose 0), Settle WriteReaction Succeeded]"
  have "map_option (map_sum id ws_sinkLog) (ws_execute echo_program 2 None ?es) =
      Some (Inr [SinkWrite 0, SinkWrite 7, SinkClose])"
    by code_simp
  then obtain s where s: "ws_execute echo_program 2 None ?es = Some (Inr s)"
      "ws_sinkLog s = [SinkWrite 0, SinkWrite 7, SinkClose]"
    by (rule observe)
  show ?thesis by (rule exI [of _ s], intro conjI, fact s, fact s, rule writable_sink_protocol [OF s(1)])
qed



text \<open>
  C4. The ready promise of the current writer signals backpressure exactly: it is pending if
  and only if the stream is writable, is not closing, and the desired size (high water mark
  minus the sizes queued) is not positive.
\<close>

theorem writable_ready_iff_backpressure:
  assumes "ws_execute P n hwm es = Some (Inr s)" "ws_writer s = Some w"
  shows "wr_readyPromise (ws_writers s ! w) \<in> h_pending (ws_heap s) \<longleftrightarrow>
    ws_state s = WWritable \<and> \<not> writableStreamCloseQueuedOrInFlight s \<and>
    js_le (writableStreamDefaultControllerGetDesiredSize s) (Fin 0)"
proof -
  note i = ws_invD [OF execute_inv [OF assms(1)]]
  have "ws_state s = WWritable \<and> \<not> ws_closing s \<Longrightarrow>
      ws_backpressure s = js_le (writableStreamDefaultControllerGetDesiredSize s) (Fin 0)"
    using i(2) by (simp add: ws_queue_ok_def writableStreamDefaultControllerGetBackpressure_def)
  then show ?thesis using i(9) assms(2) by (simp add: ws_ready_def ready_pending_def) blast
qed

theorem writable_ready_iff_backpressure_witness:
  "\<exists>s. ws_execute echo_program 2 None [Call (WriterWrite 0 3)] = Some (Inr s) \<and> ws_writer s = Some 0 \<and>
     wr_readyPromise (ws_writers s ! 0) \<in> h_pending (ws_heap s) \<and>
     js_le (writableStreamDefaultControllerGetDesiredSize s) (Fin 0)"
proof -
  have "map_option (map_sum id (\<lambda>s. (ws_writer s, ws_state s, writableStreamCloseQueuedOrInFlight s,
          js_le (writableStreamDefaultControllerGetDesiredSize s) (Fin 0))))
        (ws_execute echo_program 2 None [Call (WriterWrite 0 3)]) =
      Some (Inr (Some 0, WWritable, False, True))"
    by code_simp
  then obtain s where s: "ws_execute echo_program 2 None [Call (WriterWrite 0 3)] = Some (Inr s)"
      "(ws_writer s, ws_state s, writableStreamCloseQueuedOrInFlight s,
          js_le (writableStreamDefaultControllerGetDesiredSize s) (Fin 0)) = (Some 0, WWritable, False, True)"
    by (rule observe)
  then show ?thesis using writable_ready_iff_backpressure [OF s(1), of 0] by (intro exI [of _ s]) simp
qed



text \<open>
  C5. A promise the stream handed out settles once: whatever happens later, a settled promise
  keeps its outcome, a closed stream stays closed and an errored one stays errored.
\<close>

theorem writable_settles_once:
  assumes "ws_execute P n hwm es = Some (Inr s)" "ws_run (nested_sink P n) es' s = Some s'"
  shows "(\<forall>d < length (ws_heap s). ws_heap s ! d \<noteq> Pending \<longrightarrow> ws_heap s' ! d = ws_heap s ! d) \<and>
    (ws_state s = WClosed \<longrightarrow> ws_state s' = WClosed) \<and> (ws_state s = WErrored \<longrightarrow> ws_state s' = WErrored)"
proof -
  have "ws_top s" using execute_total [of P n hwm es] assms(1) by auto
  then have "ws_later s s'" using nested.ws_run_ok [of s P n es'] assms(2) by auto
  then show ?thesis by (simp add: ws_later_def h_extends_def)
qed

theorem writable_settles_once_witness:
  "\<exists>s s'. ws_execute echo_program 2 None [Call (WriterWrite 0 3), Settle StartReaction Succeeded,
        Settle WriteReaction (Failed (JValue 9))] = Some (Inr s) \<and>
     ws_run (nested_sink echo_program 2) [Call (WriterWrite 0 4), Call (WriterClose 0)] s = Some s' \<and>
     ws_state s = WErrored \<and> ws_state s' = WErrored \<and> ws_heap s' ! 2 = Rejected (JValue 9)"
proof -
  let ?es = "[Call (WriterWrite 0 3), Settle StartReaction Succeeded, Settle WriteReaction (Failed (JValue 9))]"
  have "map_option (map_sum id (\<lambda>s. (ws_state s, ws_heap s))) (ws_execute echo_program 2 None ?es) =
      Some (Inr (WErrored, [Fulfilled (), Rejected (JValue 9), Rejected (JValue 9), Rejected (JValue 9)]))"
    by code_simp
  then obtain s where s: "ws_execute echo_program 2 None ?es = Some (Inr s)"
      "(ws_state s, ws_heap s) = (WErrored, [Fulfilled (), Rejected (JValue 9), Rejected (JValue 9), Rejected (JValue 9)])"
    by (rule observe)
  have "ws_top s" using execute_total [of echo_program 2 None ?es] s(1) by auto
  then obtain s' where s': "ws_run (nested_sink echo_program 2) [Call (WriterWrite 0 4), Call (WriterClose 0)] s = Some s'"
    using nested.ws_run_ok by blast
  show ?thesis
    using writable_settles_once [OF s(1) s'] s s'
    by (intro exI [of _ s] exI [of _ s']) (simp add: numeral_2_eq_2)
qed

section \<open>Two defects\<close>

text \<open>
  C10. \<^verbatim>\<open>writableStreamAbort\<close> reads the stream's state before it signals abort on the controller's
  AbortSignal and tests the stale value afterwards. If a listener of the signal calls
  \<^verbatim>\<open>controller.error()\<close>, the abort of a writable stream fails an internal assertion.
\<close>

theorem abort_listener_breaks_assertion:
  assumes "ws_inv s" "ws_state s = WWritable" "ws_abortReason s = JUndefined"
    and listener: "\<And>r t. k_onabort K r t = map_option snd (WritableStreamDefaultController_error (nested_sink P n) e t)"
  shows "writableStreamAbort K reason s = None"
proof -
  let ?r = "if reason = JUndefined then JDOMException ''The signal has been aborted'' else reason"
  let ?s = "s\<lparr>ws_abortReason := ?r\<rparr>"
  have inv: "ws_inv ?s" using assms(1) by simp
  have pend: "ws_pendingAbortRequest s = None" using ws_invD(1) [OF assms(1)] assms(2) by (simp add: ws_requests_ok_def)
  have "ws_failing ?s" using ws_inv_failing [OF inv] assms(2) by simp
  then obtain t where t: "writableStreamDefaultControllerErrorIfNeeded (nested_sink P n) e ?s = Some t"
      "ws_state t \<noteq> WWritable"
    using nested.controllerErrorIfNeeded_ok [of ?s P n e] pend assms(2) by auto
  then have "writableStreamStartErroring (nested_sink P n) e (writableStreamDefaultControllerClearAlgorithms ?s) = Some t"
    using assms(2) by (simp add: writableStreamDefaultControllerErrorIfNeeded_def writableStreamDefaultControllerError_def)
  then have "ws_pendingAbortRequest t = None"
    by (rule startErroring_pendingAbort) (simp add: pend writableStreamDefaultControllerClearAlgorithms_def)
  moreover have "AbortSignal_signalAbort K reason s = Some t"
    using t(1) assms(2,3) by (simp add: AbortSignal_signalAbort_def listener WritableStreamDefaultController_error_def
        writableStreamDefaultControllerErrorIfNeeded_def Let_def)
  ultimately show ?thesis using t(2) assms(2)
    by (auto simp: writableStreamAbort_def writableStreamStartErroring_def ws_newDeferred_def Let_def)
qed

definition listening_sink :: "nat sink" where
  "listening_sink = (nested_sink echo_program 0)
     \<lparr>k_onabort := \<lambda>r s. map_option snd (WritableStreamDefaultController_error (nested_sink echo_program 0) (JValue 1) s)\<rparr>"

theorem abort_listener_breaks_assertion_witness:
  "\<exists>s. ws_execute echo_program 1 None [Settle StartReaction Succeeded] = Some (Inr s) \<and> ws_state s = WWritable \<and>
     writableStreamAbort listening_sink (JValue 5) s = None"
proof -
  have "map_option (map_sum id (\<lambda>s. (ws_state s, ws_abortReason s)))
      (ws_execute echo_program 1 None [Settle StartReaction Succeeded]) = Some (Inr (WWritable, JUndefined))"
    by code_simp
  then obtain s where s: "ws_execute echo_program 1 None [Settle StartReaction Succeeded] = Some (Inr s)"
      "(ws_state s, ws_abortReason s) = (WWritable, JUndefined)"
    by (rule observe)
  have l: "k_onabort listening_sink r t =
      map_option snd (WritableStreamDefaultController_error (nested_sink echo_program 0) (JValue 1) t)" for r t
    by (simp add: listening_sink_def)
  have st: "ws_state s = WWritable" "ws_abortReason s = JUndefined" using s(2) by simp_all
  show ?thesis
    by (intro exI [of _ s] conjI s(1) st abort_listener_breaks_assertion [OF execute_inv [OF s(1)] st l])
qed



end
