(* ===== verification/Js_String.thy ===== *)
theory Js_String
  imports Prelude
begin

text \<open>
  JavaScript strings as lists of UTF-16 code units (natural numbers), with the methods the
  modelled code calls on them. Indices are integers: \<^verbatim>\<open>slice\<close> accepts negative ones and
  \<^verbatim>\<open>lastIndexOf\<close> returns -1. \<^verbatim>\<open>charCodeAt\<close> out of range is \<^verbatim>\<open>NaN\<close>, here \<open>None\<close>: it equals no
  code, as every comparison with \<^verbatim>\<open>NaN\<close> is false.
\<close>

type_synonym js_string = "nat list"

definition str :: "string \<Rightarrow> js_string" where
  "str s = map of_char s"

definition charCodeAt :: "js_string \<Rightarrow> int \<Rightarrow> nat option" where
  "charCodeAt s i = (if 0 \<le> i \<and> i < int (length s) then Some (s ! nat i) else None)"

definition slice_index :: "js_string \<Rightarrow> int \<Rightarrow> nat" where
  "slice_index s i = (if i < 0 then nat (int (length s) + i) else min (nat i) (length s))"

definition js_slice :: "js_string \<Rightarrow> int \<Rightarrow> int \<Rightarrow> js_string" where
  "js_slice s a b = take (slice_index s b - slice_index s a) (drop (slice_index s a) s)"

definition js_slice_from :: "js_string \<Rightarrow> int \<Rightarrow> js_string" where
  "js_slice_from s a = drop (slice_index s a) s"

text \<open>\<^verbatim>\<open>lastIndexOf\<close> and \<^verbatim>\<open>endsWith\<close> for a search string of one code unit.\<close>

primrec lastIndexOf_upto :: "js_string \<Rightarrow> nat \<Rightarrow> nat \<Rightarrow> int" where
  "lastIndexOf_upto s c 0 = -1"
| "lastIndexOf_upto s c (Suc i) = (if s ! i = c then int i else lastIndexOf_upto s c i)"

definition js_lastIndexOf :: "js_string \<Rightarrow> nat \<Rightarrow> int" where
  "js_lastIndexOf s c = lastIndexOf_upto s c (length s)"

definition js_endsWith :: "js_string \<Rightarrow> js_string \<Rightarrow> bool" where
  "js_endsWith s t \<longleftrightarrow> length t \<le> length s \<and> drop (length s - length t) s = t"

section \<open>Lemmas\<close>

lemma charCodeAt_int [simp]: "charCodeAt s (int i) = (if i < length s then Some (s ! i) else None)"
  by (simp add: charCodeAt_def)

lemma charCodeAt_simps [simp]: "charCodeAt [] i = None" "charCodeAt (c # s) 0 = Some c"
  by (simp_all add: charCodeAt_def)

lemma charCodeAt_hd: "s \<noteq> [] \<Longrightarrow> charCodeAt s 0 = Some (hd s)"
  by (cases s) simp_all

lemma charCodeAt_append_left [simp]:
  "i < length s \<Longrightarrow> charCodeAt (s @ t) (int i) = charCodeAt s (int i)"
  by (simp add: nth_append)

lemma charCodeAt_last: "s \<noteq> [] \<Longrightarrow> charCodeAt s (int (length s) - 1) = Some (last s)"
  by (cases s rule: rev_cases) (simp_all add: charCodeAt_def nat_add_distrib)

lemma js_slice_int [simp]: "js_slice s (int a) (int b) = take (b - a) (drop a s)"
  by (cases "a \<le> length s") (auto simp: js_slice_def slice_index_def min_def)

lemma js_slice_0 [simp]: "js_slice s 0 (int b) = take b s"
  using js_slice_int [of s 0 b] by simp

lemma js_slice_from_int [simp]: "js_slice_from s (int a) = drop a s"
  by (cases "a \<le> length s") (auto simp: js_slice_from_def slice_index_def min_def)

lemma lastIndexOf_upto_absent: "c \<notin> set (take i s) \<Longrightarrow> i \<le> length s \<Longrightarrow> lastIndexOf_upto s c i = -1"
  by (induction i) (auto simp: take_Suc_conv_app_nth)

lemma js_lastIndexOf_absent [simp]: "c \<notin> set s \<Longrightarrow> js_lastIndexOf s c = -1"
  by (simp add: js_lastIndexOf_def lastIndexOf_upto_absent)

lemma lastIndexOf_upto_present:
  "s ! i = c \<Longrightarrow> i < k \<Longrightarrow> (\<forall>j. i < j \<and> j < k \<longrightarrow> s ! j \<noteq> c) \<Longrightarrow> lastIndexOf_upto s c k = int i"
  by (induction k) (auto simp: less_Suc_eq)

lemma js_lastIndexOf_append [simp]: "c \<notin> set t \<Longrightarrow> js_lastIndexOf (s @ c # t) c = int (length s)"
  unfolding js_lastIndexOf_def
proof (rule lastIndexOf_upto_present, goal_cases)
  case 3
  have "(s @ c # t) ! j \<noteq> c" if "length s < j" "j < length (s @ c # t)" for j
  proof -
    obtain k where "j = length s + Suc k" using \<open>length s < j\<close> less_imp_Suc_add by fastforce
    then show ?thesis using that 3 by (auto simp: nth_append in_set_conv_nth)
  qed
  then show ?case by blast
qed simp_all

end
