(* ===== verification/Path_Util.thy ===== *)
theory Path_Util
  imports Js_String
begin

text \<open>
  \<^verbatim>\<open>ext/node/polyfills/path/_util.ts\<close> and \<^verbatim>\<open>_constants.ts\<close>: the helpers shared by the posix
  and the win32 flavour of \<^verbatim>\<open>node:path\<close>.

  \<^verbatim>\<open>normalizeString\<close> scans the path once, keeping the result so far as a string; the main
  lemma says that it computes what a stack of path segments gives (\<open>normal_segments\<close>).
  The separator argument of \<^verbatim>\<open>normalizeString\<close> is one code unit in every call. An argument
  that is not a string is rejected by \<^verbatim>\<open>assertPath\<close> before anything else; the model starts
  after that test.
\<close>

section \<open>Definitions\<close>

definition CHAR_DOT :: nat where "CHAR_DOT = 46"
definition CHAR_FORWARD_SLASH :: nat where "CHAR_FORWARD_SLASH = 47"
definition CHAR_BACKWARD_SLASH :: nat where "CHAR_BACKWARD_SLASH = 92"
definition CHAR_COLON :: nat where "CHAR_COLON = 58"
definition CHAR_QUESTION_MARK :: nat where "CHAR_QUESTION_MARK = 63"
definition CHAR_UPPERCASE_A :: nat where "CHAR_UPPERCASE_A = 65"
definition CHAR_LOWERCASE_A :: nat where "CHAR_LOWERCASE_A = 97"
definition CHAR_UPPERCASE_Z :: nat where "CHAR_UPPERCASE_Z = 90"
definition CHAR_LOWERCASE_Z :: nat where "CHAR_LOWERCASE_Z = 122"

lemmas char_defs = CHAR_DOT_def CHAR_FORWARD_SLASH_def CHAR_BACKWARD_SLASH_def CHAR_COLON_def
  CHAR_QUESTION_MARK_def CHAR_UPPERCASE_A_def CHAR_LOWERCASE_A_def CHAR_UPPERCASE_Z_def CHAR_LOWERCASE_Z_def

definition isPosixPathSeparator :: "nat option \<Rightarrow> bool" where
  "isPosixPathSeparator code = (code = Some CHAR_FORWARD_SLASH)"

definition isPathSeparator :: "nat option \<Rightarrow> bool" where
  "isPathSeparator code = (isPosixPathSeparator code \<or> code = Some CHAR_BACKWARD_SLASH)"

definition isWindowsDeviceRoot :: "nat option \<Rightarrow> bool" where
  "isWindowsDeviceRoot code =
     (case code of
        None \<Rightarrow> False
      | Some c \<Rightarrow>
          (c \<ge> CHAR_LOWERCASE_A \<and> c \<le> CHAR_LOWERCASE_Z) \<or> (c \<ge> CHAR_UPPERCASE_A \<and> c \<le> CHAR_UPPERCASE_Z))"

record norm_state =
  n_res :: js_string
  n_lastSegmentLength :: int
  n_lastSlash :: int
  n_dots :: int

definition normalizeString_dotdot :: "bool \<Rightarrow> nat \<Rightarrow> norm_state \<Rightarrow> norm_state" where
  \<comment> \<open>the segment that ends here is \<^verbatim>\<open>..\<close>\<close>
  "normalizeString_dotdot allowAboveRoot separator st =
     (let res = n_res st; len = int (length res);
          above = (if allowAboveRoot
                   then st\<lparr>n_res := (if len > 0 then res @ separator # [CHAR_DOT, CHAR_DOT] else [CHAR_DOT, CHAR_DOT]),
                           n_lastSegmentLength := 2\<rparr>
                   else st)
      in
      if len < 2 \<or> n_lastSegmentLength st \<noteq> 2 \<or>
         charCodeAt res (len - 1) \<noteq> Some CHAR_DOT \<or> charCodeAt res (len - 2) \<noteq> Some CHAR_DOT
      then
        (if len > 2
         then (let lastSlashIndex = js_lastIndexOf res separator in
               if lastSlashIndex = -1 then st\<lparr>n_res := [], n_lastSegmentLength := 0\<rparr>
               else (let res = js_slice res 0 lastSlashIndex in
                     st\<lparr>n_res := res,
                        n_lastSegmentLength := int (length res) - 1 - js_lastIndexOf res separator\<rparr>))
         else if len = 2 \<or> len = 1 then st\<lparr>n_res := [], n_lastSegmentLength := 0\<rparr>
         else above)
      else above)"

definition normalizeString_step ::
    "js_string \<Rightarrow> bool \<Rightarrow> nat \<Rightarrow> (nat option \<Rightarrow> bool) \<Rightarrow> int \<Rightarrow> nat option \<Rightarrow> norm_state \<Rightarrow> norm_state" where
  "normalizeString_step path allowAboveRoot separator isSep i code st =
     (if isSep code
      then
        (let st =
           (if n_lastSlash st = i - 1 \<or> n_dots st = 1 then st
            else if n_lastSlash st \<noteq> i - 1 \<and> n_dots st = 2
            then normalizeString_dotdot allowAboveRoot separator st
            else (let segment = js_slice path (n_lastSlash st + 1) i in
                  st\<lparr>n_res := (if length (n_res st) > 0 then n_res st @ separator # segment else segment),
                     n_lastSegmentLength := i - n_lastSlash st - 1\<rparr>))
         in st\<lparr>n_lastSlash := i, n_dots := 0\<rparr>)
      else if code = Some CHAR_DOT \<and> n_dots st \<noteq> -1 then st\<lparr>n_dots := n_dots st + 1\<rparr>
      else st\<lparr>n_dots := -1\<rparr>)"

function normalizeString_loop ::
    "js_string \<Rightarrow> bool \<Rightarrow> nat \<Rightarrow> (nat option \<Rightarrow> bool) \<Rightarrow> nat \<Rightarrow> nat option \<Rightarrow> norm_state \<Rightarrow> js_string" where
  "normalizeString_loop path allowAboveRoot separator isSep i code st =
     (if i > length path then n_res st
      else if i < length path
      then (let code = charCodeAt path (int i) in
            normalizeString_loop path allowAboveRoot separator isSep (i + 1) code
              (normalizeString_step path allowAboveRoot separator isSep (int i) code st))
      else if isSep code then n_res st
      else (let code = Some CHAR_FORWARD_SLASH in
            normalizeString_loop path allowAboveRoot separator isSep (i + 1) code
              (normalizeString_step path allowAboveRoot separator isSep (int i) code st)))"
  by pat_completeness auto
termination
  by (relation "measure (\<lambda>(path, _, _, _, i, _, _). Suc (length path) - i)") auto

declare normalizeString_loop.simps [simp del]

definition normalizeString :: "js_string \<Rightarrow> bool \<Rightarrow> nat \<Rightarrow> (nat option \<Rightarrow> bool) \<Rightarrow> js_string" where
  "normalizeString path allowAboveRoot separator isSep =
     normalizeString_loop path allowAboveRoot separator isSep 0 None
       \<lparr>n_res = [], n_lastSegmentLength = 0, n_lastSlash = -1, n_dots = 0\<rparr>"

record ParsedPath =
  pp_root :: js_string
  pp_dir :: js_string
  pp_base :: js_string
  pp_ext :: js_string
  pp_name :: js_string

definition format_with :: "js_string \<Rightarrow> ParsedPath \<Rightarrow> js_string" where
  \<comment> \<open>a missing member of the path object and the empty string are both falsy\<close>
  "format_with sep pathObject =
     (let dir = (if pp_dir pathObject \<noteq> [] then pp_dir pathObject else pp_root pathObject);
          base = (if pp_base pathObject \<noteq> [] then pp_base pathObject
                  else pp_name pathObject @ pp_ext pathObject)
      in if dir = [] then base
         else if dir = pp_root pathObject then dir @ base
         else dir @ sep @ base)"

section \<open>Segments\<close>

abbreviation dotdot :: js_string where "dotdot \<equiv> [CHAR_DOT, CHAR_DOT]"

fun segments :: "(nat \<Rightarrow> bool) \<Rightarrow> js_string \<Rightarrow> js_string \<Rightarrow> js_string list" where
  "segments p cur [] = [cur]"
| "segments p cur (c # cs) = (if p c then cur # segments p [] cs else segments p (cur @ [c]) cs)"

definition push_segment :: "bool \<Rightarrow> js_string \<Rightarrow> js_string list \<Rightarrow> js_string list" where
  "push_segment allowAboveRoot seg stack =
     (if seg = [] \<or> seg = [CHAR_DOT] then stack
      else if seg = dotdot
      then (if stack = [] \<or> last stack = dotdot
            then (if allowAboveRoot then stack @ [dotdot] else stack)
            else butlast stack)
      else stack @ [seg])"

definition normal_segments :: "bool \<Rightarrow> (nat \<Rightarrow> bool) \<Rightarrow> js_string \<Rightarrow> js_string list" where
  "normal_segments allowAboveRoot p path = fold (push_segment allowAboveRoot) (segments p [] path) []"

fun join_segments :: "nat \<Rightarrow> js_string list \<Rightarrow> js_string" where
  "join_segments sep [] = []"
| "join_segments sep [s] = s"
| "join_segments sep (s # ss) = s @ sep # join_segments sep ss"

lemma join_snoc: "ss \<noteq> [] \<Longrightarrow> join_segments sep (ss @ [s]) = join_segments sep ss @ sep # s"
  by (induction sep ss rule: join_segments.induct) simp_all

lemma join_append:
  "ss \<noteq> [] \<Longrightarrow> ts \<noteq> [] \<Longrightarrow> join_segments sep (ss @ ts) = join_segments sep ss @ sep # join_segments sep ts"
proof (induction sep ss rule: join_segments.induct)
  case (2 sep s)
  then show ?case by (cases ts) simp_all
qed simp_all

lemma join_Nil_iff: "[] \<notin> set ss \<Longrightarrow> join_segments sep ss = [] \<longleftrightarrow> ss = []"
  by (cases "(sep, ss)" rule: join_segments.cases) auto

text \<open>The laws \<^verbatim>\<open>normalizeString\<close> needs of the separator test it is given.\<close>

locale path_separator =
  fixes isSep :: "nat option \<Rightarrow> bool" and sep :: nat
  assumes sep_isSep: "isSep (Some sep)"
    and slash_isSep: "isSep (Some CHAR_FORWARD_SLASH)"
    and dot_not_isSep: "\<not> isSep (Some CHAR_DOT)"
    and NaN_not_isSep: "\<not> isSep None"
begin

definition clean :: "js_string \<Rightarrow> bool" where
  "clean s \<longleftrightarrow> (\<forall>c \<in> set s. \<not> isSep (Some c))"

definition stack_ok :: "js_string list \<Rightarrow> bool" where
  "stack_ok stack \<longleftrightarrow> (\<forall>s \<in> set stack. s \<noteq> [] \<and> clean s)"

definition norm_rel :: "norm_state \<Rightarrow> js_string list \<Rightarrow> bool" where
  "norm_rel st stack \<longleftrightarrow>
     stack_ok stack \<and> n_res st = join_segments sep stack \<and>
     n_lastSegmentLength st = (if stack = [] then 0 else int (length (last stack)))"

lemma clean_simps [simp]: "clean []" "clean (c # s) \<longleftrightarrow> \<not> isSep (Some c) \<and> clean s"
  "clean (s @ t) \<longleftrightarrow> clean s \<and> clean t"
  by (auto simp: clean_def)

lemma stack_ok_simps [simp]: "stack_ok []" "stack_ok (s # ss) \<longleftrightarrow> s \<noteq> [] \<and> clean s \<and> stack_ok ss"
  "stack_ok (ss @ ts) \<longleftrightarrow> stack_ok ss \<and> stack_ok ts"
  by (auto simp: stack_ok_def)

lemma clean_sep: "clean s \<Longrightarrow> sep \<notin> set s"
  using sep_isSep by (auto simp: clean_def)

lemma stack_ok_join_empty [simp]: "stack_ok ss \<Longrightarrow> join_segments sep ss = [] \<longleftrightarrow> ss = []"
  by (rule join_Nil_iff) (auto simp: stack_ok_def)

lemma lastIndexOf_join:
  assumes "stack_ok (ss @ [s])"
  shows "js_lastIndexOf (join_segments sep (ss @ [s])) sep =
    (if ss = [] then -1 else int (length (join_segments sep ss)))"
  using assms clean_sep [of s] by (auto simp: join_snoc)

lemma dotdot_pop:
  assumes rel: "norm_rel st (ss @ [s])" and ne: "s \<noteq> dotdot"
  shows "normalizeString_dotdot allow sep st =
    st\<lparr>n_res := join_segments sep ss, n_lastSegmentLength := (if ss = [] then 0 else int (length (last ss)))\<rparr>"
proof -
  have ok: "stack_ok (ss @ [s])" and res: "n_res st = join_segments sep (ss @ [s])"
    and lsl: "n_lastSegmentLength st = int (length s)"
    using rel by (simp_all add: norm_rel_def)
  let ?r = "join_segments sep (ss @ [s])" and ?l = "int (length (join_segments sep (ss @ [s])))"
  have cond: "charCodeAt ?r (?l - 1) \<noteq> Some CHAR_DOT \<or> charCodeAt ?r (?l - 2) \<noteq> Some CHAR_DOT" if "length s = 2"
  proof -
    obtain a b where s: "s = [a, b]" using \<open>length s = 2\<close> by (auto simp: length_Suc_conv numeral_2_eq_2)
    obtain q where r: "?r = q @ [a, b]" by (cases "ss = []") (auto simp: s join_snoc)
    have "charCodeAt ?r (?l - 1) = Some b" "charCodeAt ?r (?l - 2) = Some a"
      unfolding r by (simp_all add: charCodeAt_def nth_append nat_add_distrib)
    then show ?thesis using s ne by auto
  qed
  show ?thesis
  proof (cases "ss = []")
    case True
    have "0 < length s" using ok by simp
    then have "length s = 1 \<or> length s = 2 \<or> 2 < length s" by arith
    then show ?thesis using True cond ok lsl clean_sep [of s]
      by (auto simp: normalizeString_dotdot_def res Let_def)
  next
    case False
    obtain ts t where ss: "ss = ts @ [t]" using False by (cases ss rule: rev_cases) auto
    have "length (join_segments sep ss) > 0" "length s > 0" using ok False by simp_all
    then have len: "?l > 2" using join_snoc [OF False, of sep s] by (simp del: length_greater_0_conv)
    have "js_slice ?r 0 (int (length (join_segments sep ss))) = join_segments sep ss"
      using False by (simp add: join_snoc)
    moreover have "int (length (join_segments sep ss)) - 1 - js_lastIndexOf (join_segments sep ss) sep = int (length t)"
      using ok lastIndexOf_join [of ts t] by (auto simp: ss join_snoc)
    ultimately show ?thesis using cond ok lsl len lastIndexOf_join [OF ok] False ss
      by (auto simp: normalizeString_dotdot_def res Let_def)
  qed
qed

lemma dotdot_above:
  assumes "norm_rel st stack" "stack = [] \<or> last stack = dotdot"
  shows "normalizeString_dotdot allow sep st =
    (if allow then st\<lparr>n_res := join_segments sep (stack @ [dotdot]), n_lastSegmentLength := 2\<rparr> else st)"
proof (cases "stack = []")
  case True
  then show ?thesis using assms by (auto simp: norm_rel_def normalizeString_dotdot_def Let_def)
next
  case False
  then obtain ss where ss: "stack = ss @ [dotdot]" using assms(2) by (cases stack rule: rev_cases) auto
  have res: "n_res st = join_segments sep (ss @ [dotdot])" and lsl: "n_lastSegmentLength st = 2"
    using assms(1) by (simp_all add: norm_rel_def ss)
  obtain q where r: "n_res st = q @ dotdot" unfolding res by (cases "ss = []") (auto simp: join_snoc)
  have "charCodeAt (n_res st) (int (length (n_res st)) - 1) = Some CHAR_DOT"
    "charCodeAt (n_res st) (int (length (n_res st)) - 2) = Some CHAR_DOT"
    unfolding r by (simp_all add: charCodeAt_def nth_append nat_add_distrib)
  moreover have "join_segments sep (stack @ [dotdot]) = n_res st @ sep # dotdot"
    using join_snoc [OF False] by (simp add: res ss)
  ultimately show ?thesis using lsl r by (simp add: normalizeString_dotdot_def Let_def)
qed

lemma dotdot_ok:
  assumes "norm_rel st stack"
  shows "norm_rel (normalizeString_dotdot allow sep st) (push_segment allow dotdot stack)"
    "n_lastSlash (normalizeString_dotdot allow sep st) = n_lastSlash st"
    "n_dots (normalizeString_dotdot allow sep st) = n_dots st"
proof -
  consider "stack = [] \<or> last stack = dotdot" | ss s where "stack = ss @ [s]" "s \<noteq> dotdot"
    by (cases stack rule: rev_cases) auto
  then have "norm_rel (normalizeString_dotdot allow sep st) (push_segment allow dotdot stack) \<and>
    n_lastSlash (normalizeString_dotdot allow sep st) = n_lastSlash st \<and>
    n_dots (normalizeString_dotdot allow sep st) = n_dots st"
  proof cases
    case 1
    then show ?thesis using assms dot_not_isSep
      by (auto simp: dotdot_above [OF assms 1] norm_rel_def push_segment_def)
  next
    case 2
    then show ?thesis using assms dotdot_pop [of st ss s allow]
      by (auto simp: norm_rel_def push_segment_def)
  qed
  then show "norm_rel (normalizeString_dotdot allow sep st) (push_segment allow dotdot stack)"
    "n_lastSlash (normalizeString_dotdot allow sep st) = n_lastSlash st"
    "n_dots (normalizeString_dotdot allow sep st) = n_dots st"
    by simp_all
qed

text \<open>The count of dots: all of the current segment, or -1 when it has another character.\<close>

definition dot_count :: "js_string \<Rightarrow> int" where
  "dot_count cur = (if set cur \<subseteq> {CHAR_DOT} then int (length cur) else -1)"

lemma dot_count_1: "dot_count cur = 1 \<longleftrightarrow> cur = [CHAR_DOT]"
  by (auto simp: dot_count_def length_Suc_conv)

lemma dot_count_2: "dot_count cur = 2 \<longleftrightarrow> cur = dotdot"
  by (auto simp: dot_count_def length_Suc_conv numeral_2_eq_2)

lemma dot_count_snoc:
  "dot_count (cur @ [c]) = (if c = CHAR_DOT \<and> dot_count cur \<noteq> -1 then dot_count cur + 1 else -1)"
  by (auto simp: dot_count_def)

lemma separator_step_ok:
  assumes rel: "norm_rel st stack" and code: "isSep code" and cl: "clean cur"
    and st: "n_lastSlash st = int (length pre) - 1" "n_dots st = dot_count cur"
    and i: "i = int (length pre + length cur)" and path: "path = pre @ cur @ rest"
  shows "norm_rel (normalizeString_step path allow sep isSep i code st) (push_segment allow cur stack)"
    "n_lastSlash (normalizeString_step path allow sep isSep i code st) = i"
    "n_dots (normalizeString_step path allow sep isSep i code st) = 0"
proof -
  let ?t = "normalizeString_step path allow sep isSep i code st"
  have slash: "n_lastSlash st = i - 1 \<longleftrightarrow> cur = []" using st i by auto
  have seg: "js_slice path (n_lastSlash st + 1) i = cur"
    using st i path js_slice_int [of path "length pre" "length pre + length cur"] by simp
  consider "cur = [] \<or> cur = [CHAR_DOT]" | "cur = dotdot" | "cur \<noteq> []" "cur \<noteq> [CHAR_DOT]" "cur \<noteq> dotdot" by blast
  then have "norm_rel ?t (push_segment allow cur stack) \<and> n_lastSlash ?t = i \<and> n_dots ?t = 0"
  proof cases
    case 1
    then have "?t = st\<lparr>n_lastSlash := i, n_dots := 0\<rparr>"
      using slash st(2) dot_count_1 [of cur] code by (auto simp: normalizeString_step_def)
    then show ?thesis using rel 1 by (auto simp: norm_rel_def push_segment_def)
  next
    case 2
    then have "?t = (normalizeString_dotdot allow sep st)\<lparr>n_lastSlash := i, n_dots := 0\<rparr>"
      using slash st(2) dot_count_2 [of cur] code by (auto simp: normalizeString_step_def)
    then show ?thesis using dotdot_ok [OF rel, of allow] 2 by (simp add: norm_rel_def)
  next
    case 3
    have "?t = st\<lparr>n_res := (if n_res st = [] then cur else n_res st @ sep # cur),
        n_lastSegmentLength := int (length cur), n_lastSlash := i, n_dots := 0\<rparr>"
      using 3 slash st dot_count_1 [of cur] dot_count_2 [of cur] code seg i
      by (cases st) (auto simp: normalizeString_step_def Let_def)
    then show ?thesis using rel 3 cl by (auto simp: norm_rel_def push_segment_def join_snoc)
  qed
  then show "norm_rel ?t (push_segment allow cur stack)" "n_lastSlash ?t = i" "n_dots ?t = 0" by simp_all
qed

lemma loop_ok:
  assumes "norm_rel st stack" "clean cur"
    "n_lastSlash st = int (length pre) - 1" "n_dots st = dot_count cur" "path = pre @ cur @ rest"
    "cur = [] \<Longrightarrow> code = None \<or> isSep code" "cur \<noteq> [] \<Longrightarrow> code = Some (last cur)"
  shows "normalizeString_loop path allow sep isSep (length pre + length cur) code st =
    join_segments sep (fold (push_segment allow) (segments (\<lambda>c. isSep (Some c)) cur rest) stack)"
  using assms
proof (induction rest arbitrary: pre cur code st stack)
  case Nil
  let ?i = "length pre + length cur"
  have len: "length path = ?i" using Nil.prems(5) by simp
  show ?case
  proof (cases "isSep code")
    case True
    have "cur = []"
    proof (rule ccontr)
      assume ne: "cur \<noteq> []"
      then have "last cur \<in> set cur" by simp
      then show False using Nil.prems(2,7) ne True by (auto simp: clean_def)
    qed
    then show ?thesis using True len Nil.prems(1)
      by (subst normalizeString_loop.simps) (simp add: push_segment_def norm_rel_def)
  next
    case False
    let ?st = "normalizeString_step path allow sep isSep (int ?i) (Some CHAR_FORWARD_SLASH) st"
    have "norm_rel ?st (push_segment allow cur stack)"
      using separator_step_ok(1) [OF Nil.prems(1) slash_isSep Nil.prems(2-4) _ Nil.prems(5)] by simp
    moreover have "normalizeString_loop path allow sep isSep ?i code st = n_res ?st"
      using False len by (subst normalizeString_loop.simps, subst normalizeString_loop.simps) (simp add: Let_def)
    ultimately show ?thesis by (simp add: norm_rel_def)
  qed
next
  case (Cons c rest)
  let ?i = "length pre + length cur"
  have lt: "?i < length path" and nth: "path ! ?i = c" using Cons.prems(5) by (simp_all add: nth_append)
  then have code: "charCodeAt path (int ?i) = Some c" using charCodeAt_int [of path ?i] by (simp del: of_nat_add)
  let ?st = "normalizeString_step path allow sep isSep (int ?i) (Some c) st"
  have step: "normalizeString_loop path allow sep isSep ?i code st =
      normalizeString_loop path allow sep isSep (?i + 1) (Some c) ?st"
    using lt code by (subst normalizeString_loop.simps) (simp add: Let_def)
  show ?case
  proof (cases "isSep (Some c)")
    case True
    note ok = separator_step_ok [OF Cons.prems(1) True Cons.prems(2-4) refl Cons.prems(5), of allow]
    have "normalizeString_loop path allow sep isSep (length (pre @ cur @ [c]) + length ([] :: js_string)) (Some c) ?st =
      join_segments sep (fold (push_segment allow) (segments (\<lambda>c. isSep (Some c)) [] rest) (push_segment allow cur stack))"
      by (rule Cons.IH) (use ok True Cons.prems(5) in \<open>simp_all add: dot_count_def\<close>)
    then show ?thesis using step True by simp
  next
    case False
    have st: "?st = st\<lparr>n_dots := dot_count (cur @ [c])\<rparr>"
      using False Cons.prems(4) by (simp add: normalizeString_step_def dot_count_snoc)
    have "normalizeString_loop path allow sep isSep (length pre + length (cur @ [c])) (Some c) ?st =
      join_segments sep (fold (push_segment allow) (segments (\<lambda>c. isSep (Some c)) (cur @ [c]) rest) stack)"
      by (rule Cons.IH) (use st False Cons.prems in \<open>simp_all add: norm_rel_def\<close>)
    then show ?thesis using step False by simp
  qed
qed

lemma normalizeString_ok:
  "normalizeString path allow sep isSep = join_segments sep (normal_segments allow (\<lambda>c. isSep (Some c)) path)"
  unfolding normalizeString_def normal_segments_def
  using loop_ok [of _ "[]" "[]" "[]" path path None allow] NaN_not_isSep
  by (simp add: norm_rel_def dot_count_def)

end

interpretation posix_sep: path_separator isPosixPathSeparator CHAR_FORWARD_SLASH
  by unfold_locales (simp_all add: isPosixPathSeparator_def char_defs)

interpretation win32_sep: path_separator isPathSeparator CHAR_BACKWARD_SLASH
  by unfold_locales (simp_all add: isPathSeparator_def isPosixPathSeparator_def char_defs)

end
