(* ===== verification/Path_Posix.thy ===== *)
theory Path_Posix
  imports Path_Util
begin

text \<open>
  \<^verbatim>\<open>ext/node/polyfills/path/_posix.ts\<close>: the posix flavour of \<^verbatim>\<open>node:path\<close>, definitions.

  A loop of the source is a recursive function on its index; a loop that runs downwards from
  \<open>i\<close> takes the number of code units still to be scanned, so that the clause for \<open>Suc i\<close>
  looks at index \<open>i\<close>. \<^verbatim>\<open>Deno.cwd()\<close> is a parameter (\<open>cwd\<close>).
\<close>

section \<open>resolve, normalize, join\<close>

primrec posix_resolve_loop :: "js_string list \<Rightarrow> js_string \<Rightarrow> bool \<Rightarrow> js_string \<times> bool" where
  \<comment> \<open>the paths still to be looked at, last argument first, then the working directory\<close>
  "posix_resolve_loop [] resolvedPath resolvedAbsolute = (resolvedPath, resolvedAbsolute)"
| "posix_resolve_loop (path # paths) resolvedPath resolvedAbsolute =
     (if resolvedAbsolute then (resolvedPath, resolvedAbsolute)
      else if length path = 0 then posix_resolve_loop paths resolvedPath resolvedAbsolute
      else posix_resolve_loop paths (path @ CHAR_FORWARD_SLASH # resolvedPath)
             (charCodeAt path 0 = Some CHAR_FORWARD_SLASH))"

definition posix_resolve :: "js_string \<Rightarrow> js_string list \<Rightarrow> js_string" where
  "posix_resolve cwd pathSegments =
     (let (resolvedPath, resolvedAbsolute) = posix_resolve_loop (rev pathSegments @ [cwd]) [] False;
          resolvedPath = normalizeString resolvedPath (\<not> resolvedAbsolute) CHAR_FORWARD_SLASH isPosixPathSeparator
      in if resolvedAbsolute
         then (if length resolvedPath > 0 then CHAR_FORWARD_SLASH # resolvedPath else [CHAR_FORWARD_SLASH])
         else if length resolvedPath > 0 then resolvedPath else [CHAR_DOT])"

definition posix_normalize :: "js_string \<Rightarrow> js_string" where
  "posix_normalize path =
     (if length path = 0 then [CHAR_DOT]
      else
        let isAbsolute = (charCodeAt path 0 = Some CHAR_FORWARD_SLASH);
            trailingSeparator = (charCodeAt path (int (length path) - 1) = Some CHAR_FORWARD_SLASH);
            path = normalizeString path (\<not> isAbsolute) CHAR_FORWARD_SLASH isPosixPathSeparator;
            path = (if length path = 0 \<and> \<not> isAbsolute then [CHAR_DOT] else path);
            path = (if length path > 0 \<and> trailingSeparator then path @ [CHAR_FORWARD_SLASH] else path)
        in if isAbsolute then CHAR_FORWARD_SLASH # path else path)"

definition posix_isAbsolute :: "js_string \<Rightarrow> bool" where
  "posix_isAbsolute path = (length path > 0 \<and> charCodeAt path 0 = Some CHAR_FORWARD_SLASH)"

primrec posix_join_loop :: "js_string list \<Rightarrow> js_string option \<Rightarrow> js_string option" where
  "posix_join_loop [] joined = joined"
| "posix_join_loop (path # paths) joined =
     posix_join_loop paths
       (if length path > 0
        then (case joined of
                None \<Rightarrow> Some path
              | Some j \<Rightarrow> if j = [] then Some path else Some (j @ CHAR_FORWARD_SLASH # path))
        else joined)"

definition posix_join :: "js_string list \<Rightarrow> js_string" where
  "posix_join paths =
     (if length paths = 0 then [CHAR_DOT]
      else case posix_join_loop paths None of
             None \<Rightarrow> [CHAR_DOT]
           | Some joined \<Rightarrow> if joined = [] then [CHAR_DOT] else posix_normalize joined)"

section \<open>relative\<close>

function trim_leading :: "nat \<Rightarrow> js_string \<Rightarrow> nat \<Rightarrow> nat" where
  \<comment> \<open>the loop over \<^verbatim>\<open>fromStart\<close> and \<^verbatim>\<open>toStart\<close>: the first index at which \<open>s\<close> has no \<open>c\<close>\<close>
  "trim_leading c s start =
     (if start < length s then
        (if charCodeAt s (int start) \<noteq> Some c then start else trim_leading c s (start + 1))
      else start)"
  by pat_completeness auto
termination
  by (relation "measure (\<lambda>(c, s, start). length s - start)") auto

datatype relative_scan = Return js_string | Break int

function posix_relative_scan ::
    "js_string \<Rightarrow> js_string \<Rightarrow> nat \<Rightarrow> nat \<Rightarrow> nat \<Rightarrow> nat \<Rightarrow> nat \<Rightarrow> nat \<Rightarrow> int \<Rightarrow> relative_scan" where
  \<comment> \<open>\<open>Return\<close>: the loop returned from the function; \<open>Break\<close>: it ended with this \<^verbatim>\<open>lastCommonSep\<close>\<close>
  "posix_relative_scan from to fromStart toStart fromLen toLen len i lastCommonSep =
     (if i \<le> len then
        (if i = len then
           (if toLen > len then
              (if charCodeAt to (int (toStart + i)) = Some CHAR_FORWARD_SLASH
               then Return (js_slice_from to (int (toStart + i + 1)))
               else if i = 0 then Return (js_slice_from to (int (toStart + i)))
               else Break lastCommonSep)
            else if fromLen > len then
              (if charCodeAt from (int (fromStart + i)) = Some CHAR_FORWARD_SLASH then Break (int i)
               else if i = 0 then Break 0
               else Break lastCommonSep)
            else Break lastCommonSep)
         else
           (let fromCode = charCodeAt from (int (fromStart + i)); toCode = charCodeAt to (int (toStart + i)) in
            if fromCode \<noteq> toCode then Break lastCommonSep
            else posix_relative_scan from to fromStart toStart fromLen toLen len (i + 1)
                   (if fromCode = Some CHAR_FORWARD_SLASH then int i else lastCommonSep)))
      else Break lastCommonSep)"
  by pat_completeness auto
termination
  by (relation "measure (\<lambda>(_, _, _, _, _, _, len, i, _). Suc len - i)") auto

function climb :: "nat \<Rightarrow> js_string \<Rightarrow> nat \<Rightarrow> nat \<Rightarrow> js_string \<Rightarrow> js_string" where
  \<comment> \<open>one \<^verbatim>\<open>..\<close> for every separator \<open>c\<close> of \<open>from\<close> from index \<open>i\<close> on, and for its end\<close>
  "climb c from fromEnd i out =
     (if i \<le> fromEnd then
        climb c from fromEnd (i + 1)
          (if i = fromEnd \<or> charCodeAt from (int i) = Some c
           then (if length out = 0 then out @ dotdot else out @ c # dotdot)
           else out)
      else out)"
  by pat_completeness auto
termination
  by (relation "measure (\<lambda>(_, _, fromEnd, i, _). Suc fromEnd - i)") auto

declare trim_leading.simps [simp del] posix_relative_scan.simps [simp del] climb.simps [simp del]

definition posix_relative :: "js_string \<Rightarrow> js_string \<Rightarrow> js_string \<Rightarrow> js_string" where
  "posix_relative cwd from to =
     (if from = to then []
      else
        let from = posix_resolve cwd [from]; to = posix_resolve cwd [to] in
        if from = to then []
        else
          let fromStart = trim_leading CHAR_FORWARD_SLASH from 1; fromEnd = length from;
              fromLen = fromEnd - fromStart;
              toStart = trim_leading CHAR_FORWARD_SLASH to 1; toEnd = length to;
              toLen = toEnd - toStart;
              len = (if fromLen < toLen then fromLen else toLen)
          in case posix_relative_scan from to fromStart toStart fromLen toLen len 0 (-1) of
               Return r \<Rightarrow> r
             | Break lastCommonSep \<Rightarrow>
                 (let out = climb CHAR_FORWARD_SLASH from fromEnd (nat (int fromStart + lastCommonSep + 1)) [] in
                  if length out > 0 then out @ js_slice_from to (int toStart + lastCommonSep)
                  else
                    let toStart = int toStart + lastCommonSep;
                        toStart = (if charCodeAt to toStart = Some CHAR_FORWARD_SLASH then toStart + 1 else toStart)
                    in js_slice_from to toStart))"

definition posix_toNamespacedPath :: "js_string \<Rightarrow> js_string" where
  "posix_toNamespacedPath path = path"

section \<open>dirname, basename, extname\<close>

primrec posix_dirname_scan :: "js_string \<Rightarrow> nat \<Rightarrow> bool \<Rightarrow> int" where
  \<comment> \<open>the loop ends before it reaches index 0\<close>
  "posix_dirname_scan path 0 matchedSlash = -1"
| "posix_dirname_scan path (Suc i) matchedSlash =
     (if i < 1 then -1
      else if charCodeAt path (int i) = Some CHAR_FORWARD_SLASH
      then (if \<not> matchedSlash then int i else posix_dirname_scan path i matchedSlash)
      else posix_dirname_scan path i False)"

definition posix_dirname :: "js_string \<Rightarrow> js_string" where
  "posix_dirname path =
     (if length path = 0 then [CHAR_DOT]
      else
        let hasRoot = (charCodeAt path 0 = Some CHAR_FORWARD_SLASH);
            end = posix_dirname_scan path (length path) True
        in if end = -1 then (if hasRoot then [CHAR_FORWARD_SLASH] else [CHAR_DOT])
           else if hasRoot \<and> end = 1 then [CHAR_FORWARD_SLASH, CHAR_FORWARD_SLASH]
           else js_slice path 0 end)"

primrec basename_scan :: "(nat option \<Rightarrow> bool) \<Rightarrow> nat \<Rightarrow> js_string \<Rightarrow> nat \<Rightarrow> bool \<Rightarrow> int \<Rightarrow> int \<times> int" where
  \<comment> \<open>\<open>(start, end)\<close>; the loop runs down to \<open>start\<close>\<close>
  "basename_scan isSep start path 0 matchedSlash end = (int start, end)"
| "basename_scan isSep start path (Suc i) matchedSlash end =
     (if i < start then (int start, end)
      else if isSep (charCodeAt path (int i))
      then (if \<not> matchedSlash then (int i + 1, end) else basename_scan isSep start path i matchedSlash end)
      else if end = -1 then basename_scan isSep start path i False (int i + 1)
      else basename_scan isSep start path i matchedSlash end)"

primrec basename_ext_scan ::
    "(nat option \<Rightarrow> bool) \<Rightarrow> nat \<Rightarrow> js_string \<Rightarrow> js_string \<Rightarrow> nat \<Rightarrow> bool \<Rightarrow> int \<Rightarrow> int \<Rightarrow> int \<Rightarrow> int \<times> int \<times> int" where
  \<comment> \<open>\<open>(start, end, firstNonSlashEnd)\<close>\<close>
  "basename_ext_scan isSep start path ext 0 matchedSlash extIdx firstNonSlashEnd end =
     (int start, end, firstNonSlashEnd)"
| "basename_ext_scan isSep start path ext (Suc i) matchedSlash extIdx firstNonSlashEnd end =
     (if i < start then (int start, end, firstNonSlashEnd)
      else
        let code = charCodeAt path (int i) in
        if isSep code
        then (if \<not> matchedSlash then (int i + 1, end, firstNonSlashEnd)
              else basename_ext_scan isSep start path ext i matchedSlash extIdx firstNonSlashEnd end)
        else
          let matchedSlash = (if firstNonSlashEnd = -1 then False else matchedSlash);
              firstNonSlashEnd = (if firstNonSlashEnd = -1 then int i + 1 else firstNonSlashEnd)
          in if extIdx \<ge> 0
             then (if code = charCodeAt ext extIdx
                   then basename_ext_scan isSep start path ext i matchedSlash (extIdx - 1) firstNonSlashEnd
                          (if extIdx - 1 = -1 then int i else end)
                   else basename_ext_scan isSep start path ext i matchedSlash (-1) firstNonSlashEnd firstNonSlashEnd)
             else basename_ext_scan isSep start path ext i matchedSlash extIdx firstNonSlashEnd end)"

definition basename_from :: "(nat option \<Rightarrow> bool) \<Rightarrow> nat \<Rightarrow> js_string \<Rightarrow> js_string \<Rightarrow> js_string" where
  \<comment> \<open>\<open>start\<close> is 0, or 2 after a drive letter (win32)\<close>
  "basename_from isSep start path ext =
     (if length ext > 0 \<and> length ext \<le> length path
      then
        (if length ext = length path \<and> ext = path then []
         else
           let (start, end, firstNonSlashEnd) =
                 basename_ext_scan isSep start path ext (length path) True (int (length ext) - 1) (-1) (-1);
               end = (if start = end then firstNonSlashEnd else if end = -1 then int (length path) else end)
           in js_slice path start end)
      else
        let (start, end) = basename_scan isSep start path (length path) True (-1)
        in if end = -1 then [] else js_slice path start end)"

definition posix_basename :: "js_string \<Rightarrow> js_string \<Rightarrow> js_string" where
  "posix_basename path ext = basename_from isPosixPathSeparator 0 path ext"

record ext_scan =
  e_startDot :: int
  e_startPart :: int
  e_end :: int
  e_matchedSlash :: bool
  e_preDotState :: int

primrec extname_scan :: "(nat option \<Rightarrow> bool) \<Rightarrow> nat \<Rightarrow> js_string \<Rightarrow> nat \<Rightarrow> ext_scan \<Rightarrow> ext_scan" where
  "extname_scan isSep start path 0 st = st"
| "extname_scan isSep start path (Suc i) st =
     (if i < start then st
      else
        let code = charCodeAt path (int i) in
        if isSep code
        then (if \<not> e_matchedSlash st then st\<lparr>e_startPart := int i + 1\<rparr>
              else extname_scan isSep start path i st)
        else
          let st = (if e_end st = -1 then st\<lparr>e_matchedSlash := False, e_end := int i + 1\<rparr> else st);
              st = (if code = Some CHAR_DOT
                    then (if e_startDot st = -1 then st\<lparr>e_startDot := int i\<rparr>
                          else if e_preDotState st \<noteq> 1 then st\<lparr>e_preDotState := 1\<rparr> else st)
                    else if e_startDot st \<noteq> -1 then st\<lparr>e_preDotState := -1\<rparr> else st)
          in extname_scan isSep start path i st)"

definition scan_init :: "int \<Rightarrow> ext_scan" where
  "scan_init startPart =
     \<lparr>e_startDot = -1, e_startPart = startPart, e_end = -1, e_matchedSlash = True, e_preDotState = 0\<rparr>"

definition no_extension :: "ext_scan \<Rightarrow> bool" where
  "no_extension st =
     (e_startDot st = -1 \<or> e_end st = -1 \<or> e_preDotState st = 0 \<or>
      (e_preDotState st = 1 \<and> e_startDot st = e_end st - 1 \<and> e_startDot st = e_startPart st + 1))"

definition posix_extname :: "js_string \<Rightarrow> js_string" where
  "posix_extname path =
     (let st = extname_scan isPosixPathSeparator 0 path (length path) (scan_init 0) in
      if no_extension st then [] else js_slice path (e_startDot st) (e_end st))"

section \<open>format and parse\<close>

definition posix_format :: "ParsedPath \<Rightarrow> js_string" where
  "posix_format pathObject = format_with [CHAR_FORWARD_SLASH] pathObject"

definition posix_parse :: "js_string \<Rightarrow> ParsedPath" where
  "posix_parse path =
     (let ret = \<lparr>pp_root = [], pp_dir = [], pp_base = [], pp_ext = [], pp_name = []\<rparr> in
      if length path = 0 then ret
      else
        let isAbsolute = (charCodeAt path 0 = Some CHAR_FORWARD_SLASH);
            ret = (if isAbsolute then ret\<lparr>pp_root := [CHAR_FORWARD_SLASH]\<rparr> else ret);
            start = (if isAbsolute then 1 else 0);
            st = extname_scan isPosixPathSeparator start path (length path) (scan_init 0);
            from = (if e_startPart st = 0 \<and> isAbsolute then 1 else e_startPart st);
            ret =
              (if no_extension st
               then (if e_end st \<noteq> -1
                     then ret\<lparr>pp_base := js_slice path from (e_end st), pp_name := js_slice path from (e_end st)\<rparr>
                     else ret)
               else ret\<lparr>pp_name := js_slice path from (e_startDot st), pp_base := js_slice path from (e_end st),
                        pp_ext := js_slice path (e_startDot st) (e_end st)\<rparr>)
        in if e_startPart st > 0 then ret\<lparr>pp_dir := js_slice path 0 (e_startPart st - 1)\<rparr>
           else if isAbsolute then ret\<lparr>pp_dir := [CHAR_FORWARD_SLASH]\<rparr>
           else ret)"

end
