(* ===== verification/Path_Segments.thy ===== *)
theory Path_Segments
  imports Path_Util
begin

text \<open>
  Stacks of path segments: what normalization produces, that it is a fixed point, and how
  it distributes over the concatenation of paths. The lemmas are proved for every separator
  test (locale \<open>path_separator\<close>) and used for both flavours of \<^verbatim>\<open>node:path\<close>.
\<close>

text \<open>A normal stack: a run of \<^verbatim>\<open>..\<close>, only when allowed, then proper names.\<close>

definition proper :: "js_string \<Rightarrow> bool" where
  "proper s \<longleftrightarrow> s \<noteq> [] \<and> s \<noteq> [CHAR_DOT] \<and> s \<noteq> dotdot"

definition normal_stack :: "bool \<Rightarrow> js_string list \<Rightarrow> bool" where
  "normal_stack allow ss \<longleftrightarrow>
     (\<exists>n rest. ss = replicate n dotdot @ rest \<and> (\<forall>s \<in> set rest. proper s) \<and> (n = 0 \<or> allow))"

lemma push_proper: "proper s \<Longrightarrow> push_segment allow s ss = ss @ [s]"
  by (simp add: push_segment_def proper_def)

lemma fold_push_proper: "\<forall>s \<in> set ts. proper s \<Longrightarrow> fold (push_segment allow) ts ss = ss @ ts"
  by (induction ts arbitrary: ss) (simp_all add: push_proper)

lemma normal_stack_Nil [simp]: "normal_stack allow []"
  unfolding normal_stack_def by (intro exI [of _ 0] exI [of _ "[]"]) simp

lemma normal_stack_push:
  assumes "normal_stack allow ss"
  shows "normal_stack allow (push_segment allow s ss)"
proof -
  obtain n rest where ss: "ss = replicate n dotdot @ rest" "\<forall>s \<in> set rest. proper s" "n = 0 \<or> allow"
    using assms by (auto simp: normal_stack_def)
  consider "s = [] \<or> s = [CHAR_DOT]" | "proper s" | "s = dotdot" "rest = []" | r t where "s = dotdot" "rest = r @ [t]"
    by (cases rest rule: rev_cases) (auto simp: proper_def)
  then show ?thesis
  proof cases
    case 1
    then show ?thesis using assms by (simp add: push_segment_def)
  next
    case 2
    then show ?thesis using ss unfolding normal_stack_def
      by (intro exI [of _ n] exI [of _ "rest @ [s]"]) (simp add: push_proper)
  next
    case 3
    have l: "n = 0 \<or> last (replicate n dotdot) = dotdot" by (cases n) simp_all
    show ?thesis
    proof (cases allow)
      case True
      have "push_segment allow s ss = replicate (Suc n) dotdot @ []"
        using ss(1) 3 l True by (simp add: push_segment_def replicate_append_same)
      then show ?thesis using True unfolding normal_stack_def by (intro exI [of _ "Suc n"] exI [of _ "[]"]) simp
    next
      case False
      then have "ss = []" using ss 3 by simp
      then show ?thesis using False 3 by (simp add: push_segment_def)
    qed
  next
    case 4
    then have "push_segment allow s ss = replicate n dotdot @ r"
      using ss(1,2) by (simp add: push_segment_def butlast_append proper_def)
    then show ?thesis using ss 4 unfolding normal_stack_def by (intro exI [of _ n] exI [of _ r]) simp
  qed
qed

lemma normal_stack_fold: "normal_stack allow ss \<Longrightarrow> normal_stack allow (fold (push_segment allow) ts ss)"
  by (induction ts arbitrary: ss) (simp_all add: normal_stack_push)

lemma fold_push_dotdots: "fold (push_segment True) (replicate n dotdot) (replicate m dotdot) = replicate (m + n) dotdot"
proof (induction n arbitrary: m)
  case (Suc n)
  have "push_segment True dotdot (replicate m dotdot) = replicate (Suc m) dotdot"
    by (cases m) (simp_all add: push_segment_def replicate_append_same)
  then show ?case using Suc.IH [of "Suc m"] by simp
qed simp

lemma fold_push_normal:
  assumes "normal_stack allow ss"
  shows "fold (push_segment allow) ss [] = ss"
proof -
  obtain n rest where ss: "ss = replicate n dotdot @ rest" "\<forall>s \<in> set rest. proper s" "n = 0 \<or> allow"
    using assms by (auto simp: normal_stack_def)
  have "fold (push_segment allow) (replicate n dotdot) [] = replicate n dotdot"
    using ss(3) fold_push_dotdots [of n 0] by (cases allow) auto
  then show ?thesis using ss(1,2) by (simp add: fold_push_proper)
qed

lemma normal_stack_False: "normal_stack False ss \<longleftrightarrow> (\<forall>s \<in> set ss. proper s)"
  by (auto simp: normal_stack_def)

lemma fold_push_pop:
  assumes "\<forall>s \<in> set ss. proper s" "n \<le> length ss"
  shows "fold (push_segment allow) (replicate n dotdot) ss = take (length ss - n) ss"
  using assms
proof (induction n arbitrary: ss)
  case (Suc n)
  then obtain r t where ss: "ss = r @ [t]" by (cases ss rule: rev_cases) auto
  have "push_segment allow dotdot ss = r" using Suc.prems(1) by (simp add: push_segment_def ss proper_def)
  moreover have "fold (push_segment allow) (replicate n dotdot) r = take (length r - n) r"
    using Suc by (simp add: ss)
  ultimately show ?case using Suc.prems(2) by (simp add: ss)
qed simp

lemma segments_append_sep:
  "p c \<Longrightarrow> segments p cur (xs @ c # ys) = segments p cur xs @ segments p [] ys"
  by (induction xs arbitrary: cur) auto

lemma segments_clean: "\<forall>c \<in> set xs. \<not> p c \<Longrightarrow> segments p cur xs = [cur @ xs]"
  by (induction xs arbitrary: cur) auto

definition sep_free :: "(nat \<Rightarrow> bool) \<Rightarrow> js_string \<Rightarrow> bool" where
  "sep_free p s \<longleftrightarrow> (\<forall>c \<in> set s. \<not> p c)"

lemma sep_free_simps [simp]: "sep_free p []" "sep_free p (c # s) \<longleftrightarrow> \<not> p c \<and> sep_free p s"
  "sep_free p (s @ t) \<longleftrightarrow> sep_free p s \<and> sep_free p t"
  by (auto simp: sep_free_def)

lemma segments_sep_free: "sep_free p cur \<Longrightarrow> list_all (sep_free p) (segments p cur xs)"
  by (induction xs arbitrary: cur) simp_all

lemma segments_no_sep: "s \<in> set (segments p [] xs) \<Longrightarrow> \<forall>c \<in> set s. \<not> p c"
  using segments_sep_free [of p "[]" xs] by (simp add: list_all_iff sep_free_def)

lemma segments_join:
  assumes "ss \<noteq> []" "\<forall>s \<in> set ss. \<forall>c \<in> set s. \<not> p c" "p sep"
  shows "segments p [] (join_segments sep ss) = ss"
  using assms
proof (induction sep ss rule: join_segments.induct)
  case (2 sep s)
  then show ?case using segments_clean [of s p "[]"] by simp
next
  case (3 sep s t ss)
  then show ?case using segments_append_sep [of p sep "[]" s] segments_clean [of s p "[]"] by simp
qed simp

lemma normal_segments_normal: "normal_stack allow (normal_segments allow p path)"
  by (simp add: normal_segments_def normal_stack_fold)

lemma normal_segments_append:
  "p c \<Longrightarrow> normal_segments allow p (xs @ c # ys) =
     fold (push_segment allow) (segments p [] ys) (normal_segments allow p xs)"
  by (simp add: normal_segments_def segments_append_sep)

lemma normal_segments_trailing: "p c \<Longrightarrow> normal_segments allow p (xs @ [c]) = normal_segments allow p xs"
  by (simp add: normal_segments_append push_segment_def)

lemma normal_segments_leading: "p c \<Longrightarrow> normal_segments allow p (c # xs) = normal_segments allow p xs"
  using normal_segments_append [of p c allow "[]" xs] by (simp add: normal_segments_def push_segment_def)

lemma push_set: "s \<in> set (push_segment allow t ss) \<Longrightarrow> s \<in> set ss \<or> s = t"
  by (auto simp: push_segment_def split: if_splits dest: in_set_butlastD)

lemma fold_push_set: "s \<in> set (fold (push_segment allow) ts ss) \<Longrightarrow> s \<in> set ss \<or> s \<in> set ts"
  by (induction ts arbitrary: ss) (auto dest: push_set)

lemma normal_segments_no_sep: "s \<in> set (normal_segments allow p path) \<Longrightarrow> \<forall>c \<in> set s. \<not> p c"
  using fold_push_set [of s allow "segments p [] path" "[]"] segments_no_sep [of s p path]
  by (auto simp: normal_segments_def)

lemma normal_segments_join:
  assumes "normal_stack allow ss" "\<forall>s \<in> set ss. \<forall>c \<in> set s. \<not> p c" "p sep"
  shows "normal_segments allow p (join_segments sep ss) = ss"
proof (cases "ss = []")
  case True
  then show ?thesis by (simp add: normal_segments_def push_segment_def)
next
  case False
  then show ?thesis using assms by (simp add: normal_segments_def segments_join fold_push_normal)
qed

lemma normal_stack_nonempty:
  assumes "normal_stack allow ss" "s \<in> set ss"
  shows "s \<noteq> []"
proof -
  obtain n rest where ss: "ss = replicate n dotdot @ rest" "\<forall>s \<in> set rest. proper s"
    using assms(1) unfolding normal_stack_def by blast
  then have "s = dotdot \<or> proper s" using assms(2) by (cases "s \<in> set rest") simp_all
  then show ?thesis unfolding proper_def by blast
qed

lemma join_hd:
  assumes "ss \<noteq> []" "\<forall>s \<in> set ss. s \<noteq> []"
  shows "join_segments sep ss \<noteq> []" "hd (join_segments sep ss) = hd (hd ss)"
proof -
  obtain s ts where ss: "ss = s # ts" using assms(1) by (cases ss) auto
  then show "join_segments sep ss \<noteq> []" "hd (join_segments sep ss) = hd (hd ss)"
    using assms(2) by (cases ts; simp)+
qed

lemma join_last:
  assumes "ss \<noteq> []" "\<forall>s \<in> set ss. s \<noteq> []"
  shows "last (join_segments sep ss) = last (last ss)"
proof -
  obtain ts s where ss: "ss = ts @ [s]" using assms(1) by (cases ss rule: rev_cases) auto
  then show ?thesis using assms(2) by (cases "ts = []") (simp_all add: join_snoc)
qed

end
