(* ===== verification/Path_Posix_Properties.thy ===== *)
theory Path_Posix_Properties
  imports Path_Posix Path_Segments
begin

text \<open>
  Properties of the posix flavour of \<^verbatim>\<open>node:path\<close>, in terms of path segments.
\<close>

section \<open>normalize\<close>

abbreviation is_slash :: "nat \<Rightarrow> bool" where
  "is_slash c \<equiv> isPosixPathSeparator (Some c)"

lemma is_slash_iff: "is_slash c \<longleftrightarrow> c = CHAR_FORWARD_SLASH"
  by (simp add: isPosixPathSeparator_def)

abbreviation posix_segments :: "bool \<Rightarrow> js_string \<Rightarrow> js_string list" where
  "posix_segments allow path \<equiv> normal_segments allow is_slash path"

abbreviation slash_join :: "js_string list \<Rightarrow> js_string" where
  "slash_join ss \<equiv> join_segments CHAR_FORWARD_SLASH ss"

lemmas normalizeString_posix = posix_sep.normalizeString_ok

text \<open>What normalization yields: names without slashes, none empty.\<close>

definition slash_free :: "js_string list \<Rightarrow> bool" where
  "slash_free ss \<longleftrightarrow> (\<forall>s \<in> set ss. s \<noteq> [] \<and> CHAR_FORWARD_SLASH \<notin> set s)"

lemma slash_free_simps [simp]: "slash_free []" "slash_free (s # ss) \<longleftrightarrow> s \<noteq> [] \<and> CHAR_FORWARD_SLASH \<notin> set s \<and> slash_free ss"
  "slash_free (ss @ ts) \<longleftrightarrow> slash_free ss \<and> slash_free ts"
  by (auto simp: slash_free_def)

lemma slash_free_sep: "slash_free ss \<Longrightarrow> \<forall>s \<in> set ss. \<forall>c \<in> set s. \<not> is_slash c"
  unfolding slash_free_def is_slash_iff by blast

lemma posix_segments_slash_free: "slash_free (posix_segments allow path)"
  unfolding slash_free_def
proof
  fix s
  assume s: "s \<in> set (posix_segments allow path)"
  have "s \<noteq> []" using normal_stack_nonempty [OF normal_segments_normal s] .
  moreover have "\<forall>c \<in> set s. \<not> is_slash c" using normal_segments_no_sep [OF s] .
  ultimately show "s \<noteq> [] \<and> CHAR_FORWARD_SLASH \<notin> set s" unfolding is_slash_iff by blast
qed

lemma slash_join_empty: "slash_free ss \<Longrightarrow> slash_join ss = [] \<longleftrightarrow> ss = []"
  by (rule join_Nil_iff) (auto simp: slash_free_def)

lemma slash_join_hd:
  assumes "slash_free ss" "ss \<noteq> []"
  shows "slash_join ss \<noteq> []" "hd (slash_join ss) = hd (hd ss)" "hd (slash_join ss) \<noteq> CHAR_FORWARD_SLASH"
proof -
  have ne: "\<forall>s \<in> set ss. s \<noteq> []" using assms(1) unfolding slash_free_def by blast
  show "slash_join ss \<noteq> []" "hd (slash_join ss) = hd (hd ss)" using join_hd [OF assms(2) ne] by simp_all
  moreover have "hd ss \<in> set ss" "hd (hd ss) \<in> set (hd ss)" using assms(2) ne by simp_all
  ultimately show "hd (slash_join ss) \<noteq> CHAR_FORWARD_SLASH" using assms(1) unfolding slash_free_def by metis
qed

lemma slash_join_last:
  assumes "slash_free ss" "ss \<noteq> []"
  shows "last (slash_join ss) \<noteq> CHAR_FORWARD_SLASH"
proof -
  have ne: "\<forall>s \<in> set ss. s \<noteq> []" using assms(1) unfolding slash_free_def by blast
  have "last ss \<in> set ss" "last (last ss) \<in> set (last ss)" using assms(2) ne by simp_all
  then show ?thesis using assms(1) join_last [OF assms(2) ne] unfolding slash_free_def by metis
qed

lemma posix_segments_join:
  assumes "normal_stack allow ss" "slash_free ss"
  shows "posix_segments allow (slash_join ss) = ss"
    "posix_segments allow (slash_join ss @ [CHAR_FORWARD_SLASH]) = ss"
    "posix_segments allow (CHAR_FORWARD_SLASH # slash_join ss) = ss"
    "posix_segments allow (CHAR_FORWARD_SLASH # slash_join ss @ [CHAR_FORWARD_SLASH]) = ss"
  using normal_segments_join [OF assms(1) slash_free_sep [OF assms(2)], of CHAR_FORWARD_SLASH]
  by (simp_all add: is_slash_iff normal_segments_trailing normal_segments_leading)

text \<open>\<^verbatim>\<open>normalize\<close> on the segments.\<close>

lemma posix_normalize_segments:
  assumes "path \<noteq> []"
  shows "posix_normalize path =
    (let abs = (hd path = CHAR_FORWARD_SLASH); ss = posix_segments (\<not> abs) path;
         body = (if ss = [] \<and> \<not> abs then [CHAR_DOT] else slash_join ss)
     in (if abs then [CHAR_FORWARD_SLASH] else []) @ body @
        (if body \<noteq> [] \<and> last path = CHAR_FORWARD_SLASH then [CHAR_FORWARD_SLASH] else []))"
proof -
  have c0: "charCodeAt path 0 = Some (hd path)" using charCodeAt_hd [OF assms] .
  have cl: "charCodeAt path (int (length path) - 1) = Some (last path)" using charCodeAt_last [OF assms] .
  have e: "slash_join (posix_segments allow path) = [] \<longleftrightarrow> posix_segments allow path = []" for allow
    by (rule slash_join_empty [OF posix_segments_slash_free])
  show ?thesis using assms
    by (simp add: posix_normalize_def normalizeString_posix c0 cl e Let_def)
qed

lemma posix_segments_dot [simp]:
  "posix_segments allow [CHAR_DOT] = []" "posix_segments allow [CHAR_DOT, CHAR_FORWARD_SLASH] = []"
  by (simp_all add: normal_segments_def is_slash_iff push_segment_def char_defs)

lemma posix_normalize_dot [simp]:
  "posix_normalize [CHAR_DOT] = [CHAR_DOT]"
  "posix_normalize [CHAR_DOT, CHAR_FORWARD_SLASH] = [CHAR_DOT, CHAR_FORWARD_SLASH]"
  by (simp_all add: posix_normalize_segments Let_def) (simp_all add: char_defs)

text \<open>A normal path: one of the strings \<^verbatim>\<open>normalize\<close> returns.\<close>

lemma posix_normalize_absolute:
  assumes "normal_stack False ss" "slash_free ss" "tail = [] \<or> ss \<noteq> [] \<and> tail = [CHAR_FORWARD_SLASH]"
  shows "posix_normalize (CHAR_FORWARD_SLASH # slash_join ss @ tail) = CHAR_FORWARD_SLASH # slash_join ss @ tail"
proof -
  let ?p = "CHAR_FORWARD_SLASH # slash_join ss @ tail"
  have "posix_segments False ?p = ss" using posix_segments_join [OF assms(1,2)] assms(3) by auto
  moreover have "ss \<noteq> [] \<Longrightarrow> last ?p = CHAR_FORWARD_SLASH \<longleftrightarrow> tail = [CHAR_FORWARD_SLASH]"
    using assms(3) slash_join_last [OF assms(2)] slash_join_empty [OF assms(2)] by auto
  ultimately show ?thesis using assms(3) slash_join_empty [OF assms(2)]
    by (cases "ss = []") (auto simp: posix_normalize_segments Let_def)
qed

lemma posix_normalize_relative:
  assumes "normal_stack True ss" "slash_free ss" "ss \<noteq> []" "tail = [] \<or> tail = [CHAR_FORWARD_SLASH]"
  shows "posix_normalize (slash_join ss @ tail) = slash_join ss @ tail"
proof -
  let ?p = "slash_join ss @ tail"
  have ne: "slash_join ss \<noteq> []" and hd: "hd ?p \<noteq> CHAR_FORWARD_SLASH"
    using slash_join_hd [OF assms(2,3)] by simp_all
  have "posix_segments True ?p = ss" using posix_segments_join [OF assms(1,2)] assms(4) by auto
  moreover have "last ?p = CHAR_FORWARD_SLASH \<longleftrightarrow> tail = [CHAR_FORWARD_SLASH]"
    using assms(4) slash_join_last [OF assms(2,3)] by auto
  ultimately show ?thesis using assms(3,4) ne hd by (auto simp: posix_normalize_segments Let_def)
qed

text \<open>
  C12. \<^verbatim>\<open>path.posix.normalize\<close> is idempotent: normalizing a normalized path changes nothing.
\<close>

theorem posix_normalize_idempotent: "posix_normalize (posix_normalize path) = posix_normalize path"
proof (cases "path = []")
  case True
  then show ?thesis by (simp add: posix_normalize_def [of "[]"])
next
  case False
  let ?abs = "hd path = CHAR_FORWARD_SLASH" and ?sl = "last path = CHAR_FORWARD_SLASH"
  let ?ss = "posix_segments (\<not> ?abs) path"
  have sf: "slash_free ?ss" by (rule posix_segments_slash_free)
  have ns: "normal_stack (\<not> ?abs) ?ss" by (rule normal_segments_normal)
  show ?thesis
  proof (cases ?abs)
    case True
    then have "posix_normalize path = CHAR_FORWARD_SLASH # slash_join ?ss @
        (if ?ss \<noteq> [] \<and> ?sl then [CHAR_FORWARD_SLASH] else [])"
      using False slash_join_empty [OF sf] by (simp add: posix_normalize_segments Let_def)
    then show ?thesis using posix_normalize_absolute [of ?ss] ns sf True by simp
  next
    case rel: False
    show ?thesis
    proof (cases "?ss = []")
      case True
      then have "posix_normalize path = [CHAR_DOT] @ (if ?sl then [CHAR_FORWARD_SLASH] else [])"
        using False rel by (simp add: posix_normalize_segments Let_def)
      then show ?thesis by simp
    next
      case ne: False
      then have "posix_normalize path = slash_join ?ss @ (if ?sl then [CHAR_FORWARD_SLASH] else [])"
        using False rel slash_join_empty [OF sf] by (simp add: posix_normalize_segments Let_def)
      then show ?thesis using posix_normalize_relative [of ?ss] ns sf rel ne by simp
    qed
  qed
qed

end
