(* ===== verification/Path_Posix_Relative.thy ===== *)
theory Path_Posix_Relative
  imports Path_Posix_Properties
begin

text \<open>
  \<^verbatim>\<open>resolve\<close> and \<^verbatim>\<open>relative\<close> of the posix flavour. \<^verbatim>\<open>resolve\<close> is a sequence of \<^verbatim>\<open>cd\<close> commands
  started in the working directory; \<^verbatim>\<open>relative\<close>, which compares the two strings code unit by
  code unit, climbs out of the segments that differ and descends into the target.
\<close>

section \<open>resolve\<close>

fun cd :: "js_string list \<Rightarrow> js_string list \<Rightarrow> js_string list" where
  "cd dir [] = dir"
| "cd dir (p # ps) =
     cd (if p = [] then dir
         else if hd p = CHAR_FORWARD_SLASH then posix_segments False p
         else fold (push_segment False) (segments is_slash [] p) dir) ps"

lemma cd_append: "cd dir (ps @ qs) = cd (cd dir ps) qs"
  by (induction ps arbitrary: dir) simp_all

lemma resolve_loop_absolute: "posix_resolve_loop ps rp True = (rp, True)"
  by (cases ps) simp_all

lemma posix_segments_slash:
  "posix_segments allow (xs @ CHAR_FORWARD_SLASH # ys) =
     fold (push_segment allow) (segments is_slash [] ys) (posix_segments allow xs)"
  by (simp add: normal_segments_append is_slash_iff)

lemma resolve_loop_ok:
  assumes "cwd \<noteq> []" "hd cwd = CHAR_FORWARD_SLASH"
  shows "\<exists>s. posix_resolve_loop (rev ps @ [cwd]) rp False = (s, True) \<and>
    posix_segments False s = fold (push_segment False) (segments is_slash [] rp) (cd (posix_segments False cwd) ps)"
proof (induction ps arbitrary: rp rule: rev_induct)
  case Nil
  then show ?case using assms by (simp add: charCodeAt_hd posix_segments_slash)
next
  case (snoc p ps)
  consider "p = []" | "p \<noteq> []" "hd p = CHAR_FORWARD_SLASH" | "p \<noteq> []" "hd p \<noteq> CHAR_FORWARD_SLASH" by blast
  then show ?case
  proof cases
    case 1
    then show ?thesis using snoc.IH [of rp] by (simp add: cd_append)
  next
    case 2
    then show ?thesis by (simp add: charCodeAt_hd resolve_loop_absolute cd_append posix_segments_slash)
  next
    case 3
    have "segments is_slash [] (p @ CHAR_FORWARD_SLASH # rp) = segments is_slash [] p @ segments is_slash [] rp"
      by (rule segments_append_sep) (simp add: is_slash_iff)
    then show ?thesis using 3 snoc.IH [of "p @ CHAR_FORWARD_SLASH # rp"]
      by (simp add: charCodeAt_hd cd_append)
  qed
qed

text \<open>An absolute directory: its segments are proper names without slashes.\<close>

definition directory :: "js_string list \<Rightarrow> bool" where
  "directory dir \<longleftrightarrow> normal_stack False dir \<and> slash_free dir"

lemma directory_push_all:
  assumes "directory dir"
  shows "directory (fold (push_segment False) (segments is_slash [] p) dir)"
proof -
  let ?r = "fold (push_segment False) (segments is_slash [] p) dir"
  have ns: "normal_stack False ?r" using assms by (simp add: directory_def normal_stack_fold)
  have "s \<noteq> [] \<and> CHAR_FORWARD_SLASH \<notin> set s" if s: "s \<in> set ?r" for s
  proof
    show "s \<noteq> []" using normal_stack_nonempty [OF ns s] .
    show "CHAR_FORWARD_SLASH \<notin> set s"
    proof (cases "s \<in> set dir")
      case True
      then show ?thesis using assms by (simp add: directory_def slash_free_def)
    next
      case False
      then have "s \<in> set (segments is_slash [] p)" using fold_push_set [OF s] by blast
      then have "\<forall>c \<in> set s. \<not> is_slash c" by (rule segments_no_sep)
      then show ?thesis unfolding is_slash_iff by blast
    qed
  qed
  then show ?thesis using ns by (simp add: directory_def slash_free_def)
qed

lemma directory_segments [simp]: "directory (posix_segments False p)"
  by (simp add: directory_def normal_segments_normal posix_segments_slash_free)

lemma directory_cd: "directory dir \<Longrightarrow> directory (cd dir ps)"
  by (induction ps arbitrary: dir) (simp_all add: directory_push_all)

lemma directory_proper: "directory dir \<Longrightarrow> \<forall>s \<in> set dir. proper s"
  by (simp add: directory_def normal_stack_False)

lemma posix_resolve_cd:
  assumes "cwd \<noteq> []" "hd cwd = CHAR_FORWARD_SLASH"
  shows "posix_resolve cwd paths = CHAR_FORWARD_SLASH # slash_join (cd (posix_segments False cwd) paths)"
proof -
  obtain s where s: "posix_resolve_loop (rev paths @ [cwd]) [] False = (s, True)"
    "posix_segments False s = cd (posix_segments False cwd) paths"
    using resolve_loop_ok [OF assms, of paths "[]"] by (auto simp: push_segment_def)
  then show ?thesis by (simp add: posix_resolve_def normalizeString_posix Let_def)
qed

text \<open>
  C13. \<^verbatim>\<open>path.posix.resolve\<close> works like a sequence of \<^verbatim>\<open>cd\<close> commands: with an absolute working
  directory the result is the absolute path of the directory reached from it by entering the
  arguments from left to right, an absolute argument starting over at the root, an empty one
  changing nothing.
\<close>

theorem posix_resolve_is_cd:
  assumes "cwd \<noteq> []" "hd cwd = CHAR_FORWARD_SLASH"
  shows "posix_resolve cwd paths = CHAR_FORWARD_SLASH # slash_join (cd (posix_segments False cwd) paths)"
  by (rule posix_resolve_cd [OF assms])

theorem posix_resolve_is_cd_witness:
  "posix_resolve (str ''/home/me'') [str ''a/b'', str ''../c''] = str ''/home/me/a/c'' \<and>
   str ''/home/me/a/c'' =
     CHAR_FORWARD_SLASH # slash_join (cd (posix_segments False (str ''/home/me'')) [str ''a/b'', str ''../c''])"
proof -
  have "str ''/home/me'' \<noteq> []" "hd (str ''/home/me'') = CHAR_FORWARD_SLASH" by code_simp+
  note r = posix_resolve_is_cd [OF this, of "[str ''a/b'', str ''../c'']"]
  have "posix_resolve (str ''/home/me'') [str ''a/b'', str ''../c''] = str ''/home/me/a/c''" by code_simp
  then show ?thesis using r by simp
qed

section \<open>The directory between two paths\<close>

fun common_prefix :: "'a list \<Rightarrow> 'a list \<Rightarrow> 'a list" where
  "common_prefix (x # xs) (y # ys) = (if x = y then x # common_prefix xs ys else [])"
| "common_prefix _ _ = []"

lemma common_prefix_split:
  obtains xs' ys' where "xs = common_prefix xs ys @ xs'" "ys = common_prefix xs ys @ ys'"
    "xs' = [] \<or> ys' = [] \<or> hd xs' \<noteq> hd ys'"
proof (induction xs ys arbitrary: thesis rule: common_prefix.induct)
  case (1 x xs y ys)
  show ?case
  proof (cases "x = y")
    case True
    then show ?thesis using 1(1) [OF True] 1(2) by auto
  next
    case False
    then show ?thesis using 1(2) by simp
  qed
qed auto

definition descend :: "js_string list \<Rightarrow> js_string list \<Rightarrow> js_string list" where
  "descend fs ts =
     (let k = length (common_prefix fs ts) in replicate (length fs - k) dotdot @ drop k ts)"

lemma count_slash_join:
  "slash_free ss \<Longrightarrow> ss \<noteq> [] \<Longrightarrow> Suc (count_list (slash_join ss) CHAR_FORWARD_SLASH) = length ss"
  by (induction CHAR_FORWARD_SLASH ss rule: join_segments.induct) (simp_all add: count_list_0_iff count_list_append)

lemma join_dotdots:
  "join_segments c (replicate (Suc m) dotdot) =
     (if m = 0 then dotdot else join_segments c (replicate m dotdot) @ c # dotdot)"
proof (cases "m = 0")
  case False
  have r: "replicate (Suc m) dotdot = replicate m dotdot @ [dotdot]" by (simp add: replicate_append_same)
  have ne: "replicate m dotdot \<noteq> []" using False by simp
  show ?thesis unfolding r join_snoc [OF ne] using False by simp
qed simp

lemma climb_ok:
  assumes "m = 0 \<longleftrightarrow> out = []" "out = join_segments c (replicate m dotdot)"
  shows "climb c (p @ s) (length p + length s) (length p) out =
    join_segments c (replicate (m + Suc (count_list s c)) dotdot)"
  using assms
proof (induction s arbitrary: p m out)
  case Nil
  have "climb c p (length p) (length p) out = (if out = [] then dotdot else out @ c # dotdot)"
    by (subst climb.simps, subst climb.simps) simp
  then show ?case using Nil join_dotdots [of c m] by auto
next
  case (Cons x s)
  let ?o = "if x = c then (if out = [] then dotdot else out @ c # dotdot) else out"
  let ?m = "if x = c then Suc m else m"
  have nth: "charCodeAt (p @ x # s) (int (length p)) = Some x" by simp
  have "climb c (p @ x # s) (length p + length (x # s)) (length p) out =
      climb c ((p @ [x]) @ s) (length (p @ [x]) + length s) (length (p @ [x])) ?o"
    by (subst climb.simps) (simp add: nth)
  moreover have "?m = 0 \<longleftrightarrow> ?o = []" using Cons.prems(1) by simp
  moreover have "?o = join_segments c (replicate ?m dotdot)"
    using Cons.prems join_dotdots [of c m] by auto
  ultimately show ?case using Cons.IH [of ?m ?o "p @ [x]"] by simp
qed

section \<open>relative\<close>

text \<open>While the two paths agree the scan remembers the last common slash.\<close>

lemma scan_common:
  assumes "n \<le> len" "len \<le> length f" "len \<le> length t" "take n f = take n t"
  shows "posix_relative_scan (x # f) (y # t) 1 1 fl tn len 0 (-1) =
    posix_relative_scan (x # f) (y # t) 1 1 fl tn len n (lastIndexOf_upto f CHAR_FORWARD_SLASH n)"
  using assms(1,4)
proof (induction n)
  case (Suc n)
  have n: "n < len" "n < length f" "n < length t" using Suc.prems(1) assms(2,3) by simp_all
  have pre: "take n f = take n t" using arg_cong [OF Suc.prems(2), of "take n"] by simp
  have eq: "f ! n = t ! n" using arg_cong [OF Suc.prems(2), of "\<lambda>l. l ! n"] n by simp
  have cf: "charCodeAt (x # f) (int (1 + n)) = Some (f ! n)" using n charCodeAt_int [of "x # f" "1 + n"] by simp
  have ct: "charCodeAt (y # t) (int (1 + n)) = Some (t ! n)" using n charCodeAt_int [of "y # t" "1 + n"] by simp
  have "posix_relative_scan (x # f) (y # t) 1 1 fl tn len n (lastIndexOf_upto f CHAR_FORWARD_SLASH n) =
      posix_relative_scan (x # f) (y # t) 1 1 fl tn len (Suc n) (lastIndexOf_upto f CHAR_FORWARD_SLASH (Suc n))"
    using n eq by - (subst posix_relative_scan.simps, unfold cf ct Let_def, simp)
  then show ?case using Suc.IH pre n by simp
qed simp

text \<open>The end of the scan, at the first index \<open>n\<close> where the paths differ or one of them ends.\<close>

lemma scan_end:
  assumes len: "len = min (length f) (length t)" and n: "n \<le> len"
    and stop: "n < len \<Longrightarrow> f ! n \<noteq> t ! n"
  shows "posix_relative_scan (x # f) (y # t) 1 1 (length f) (length t) len n l =
    (if n < len then Break l
     else if n < length t then
       (if t ! n = CHAR_FORWARD_SLASH then Return (drop (Suc n) t) else if n = 0 then Return t else Break l)
     else if n < length f then
       (if f ! n = CHAR_FORWARD_SLASH then Break (int n) else if n = 0 then Break 0 else Break l)
     else Break l)"
proof -
  have cf: "charCodeAt (x # f) (int (1 + n)) = (if n < length f then Some (f ! n) else None)"
    using charCodeAt_int [of "x # f" "1 + n"] by simp
  have ct: "charCodeAt (y # t) (int (1 + n)) = (if n < length t then Some (t ! n) else None)"
    using charCodeAt_int [of "y # t" "1 + n"] by simp
  have sl: "js_slice_from (y # t) (int (1 + n + 1)) = drop (Suc n) t" "js_slice_from (y # t) (int (1 + n)) = drop n t"
    using js_slice_from_int [of "y # t" "1 + n + 1"] js_slice_from_int [of "y # t" "1 + n"] by simp_all
  show ?thesis
  proof (cases "n < len")
    case True
    then have "n < length f" "n < length t" using len by simp_all
    then show ?thesis using True stop
      by - (subst posix_relative_scan.simps, unfold cf ct Let_def, simp)
  next
    case False
    then have e: "n = len" using n by simp
    show ?thesis
    proof (cases "n < length t")
      case True
      have "len \<le> length t" using len by simp
      then show ?thesis using True False e
        by - (subst posix_relative_scan.simps, unfold ct sl Let_def, simp)
    next
      case ge: False
      then show ?thesis using False e len
        by - (subst posix_relative_scan.simps, unfold cf Let_def, simp)
    qed
  qed
qed

lemma trim_leading_slash:
  assumes "f = [] \<or> hd f \<noteq> CHAR_FORWARD_SLASH"
  shows "trim_leading CHAR_FORWARD_SLASH (x # f) 1 = 1"
proof (cases f)
  case Nil
  then show ?thesis by (simp add: trim_leading.simps)
next
  case (Cons c cs)
  then have "charCodeAt (x # f) (int 1) = Some c" using charCodeAt_int [of "x # f" 1] by simp
  then show ?thesis using Cons assms by (subst trim_leading.simps) simp
qed

lemma lastIndexOf_upto_prefix:
  "n \<le> length s \<Longrightarrow> lastIndexOf_upto (s @ t) c n = lastIndexOf_upto s c n"
  by (induction n) (simp_all add: nth_append)

lemma lastIndexOf_upto_sep:
  assumes "c \<notin> set u"
  shows "lastIndexOf_upto (s @ c # u @ r) c (length (s @ c # u)) = int (length s)"
    "lastIndexOf_upto (u @ r) c (length u) = -1"
proof -
  have "lastIndexOf_upto ((s @ c # u) @ r) c (length (s @ c # u)) = js_lastIndexOf (s @ c # u) c"
    by (simp only: lastIndexOf_upto_prefix js_lastIndexOf_def)
  then show "lastIndexOf_upto (s @ c # u @ r) c (length (s @ c # u)) = int (length s)"
    using assms by simp
  have "lastIndexOf_upto (u @ r) c (length u) = js_lastIndexOf u c"
    by (simp only: lastIndexOf_upto_prefix js_lastIndexOf_def)
  then show "lastIndexOf_upto (u @ r) c (length u) = -1" using assms by simp
qed

text \<open>The rest of \<^verbatim>\<open>relative\<close> once the scan is over.\<close>

definition relative_finish :: "js_string \<Rightarrow> js_string \<Rightarrow> relative_scan \<Rightarrow> js_string" where
  "relative_finish f t r =
     (case r of
        Return s \<Rightarrow> s
      | Break l \<Rightarrow>
          (let out = climb CHAR_FORWARD_SLASH (CHAR_FORWARD_SLASH # f) (Suc (length f)) (nat (1 + l + 1)) [] in
           if length out > 0 then out @ js_slice_from (CHAR_FORWARD_SLASH # t) (1 + l)
           else
             let toStart = 1 + l;
                 toStart = (if charCodeAt (CHAR_FORWARD_SLASH # t) toStart = Some CHAR_FORWARD_SLASH
                            then toStart + 1 else toStart)
             in js_slice_from (CHAR_FORWARD_SLASH # t) toStart))"

lemma relative_finish_break:
  assumes "f = p @ slash_join fs'" "slash_free fs'" "fs' \<noteq> []" "l = int (length p) - 1"
  shows "relative_finish f t (Break l) =
    slash_join (replicate (length fs') dotdot) @ drop (length p) (CHAR_FORWARD_SLASH # t)"
proof -
  have "climb CHAR_FORWARD_SLASH (CHAR_FORWARD_SLASH # f) (Suc (length f)) (Suc (length p)) [] =
      slash_join (replicate (Suc (count_list (slash_join fs') CHAR_FORWARD_SLASH)) dotdot)"
    using climb_ok [of 0 "[]" CHAR_FORWARD_SLASH "CHAR_FORWARD_SLASH # p" "slash_join fs'"] assms(1) by simp
  then have c: "climb CHAR_FORWARD_SLASH (CHAR_FORWARD_SLASH # f) (Suc (length f)) (Suc (length p)) [] =
      slash_join (replicate (length fs') dotdot)"
    unfolding count_slash_join [OF assms(2,3)] .
  have i: "nat (1 + l + 1) = Suc (length p)" "1 + l = int (length p)" using assms(4) by simp_all
  have "slash_join (replicate (length fs') dotdot) \<noteq> []" using assms(3) join_Nil_iff [of "replicate (length fs') dotdot" CHAR_FORWARD_SLASH] by simp
  then show ?thesis unfolding relative_finish_def relative_scan.case i(1) c
    unfolding Let_def i(2) js_slice_from_int by simp
qed

definition lead :: "js_string list \<Rightarrow> js_string" where
  "lead cs = (if cs = [] then [] else slash_join cs @ [CHAR_FORWARD_SLASH])"

lemma slash_join_lead: "ss \<noteq> [] \<Longrightarrow> slash_join (cs @ ss) = lead cs @ slash_join ss"
  by (cases "cs = []") (simp_all add: lead_def join_append)

lemma drop_lead: "drop (length (lead cs)) (CHAR_FORWARD_SLASH # lead cs @ s) = CHAR_FORWARD_SLASH # s"
  by (simp add: lead_def)

lemma slash_join_Cons:
  obtains r where "slash_join (a # as) = a @ r" "r = [] \<or> hd r = CHAR_FORWARD_SLASH"
  by (cases as) auto

lemma scan_diverging:
  assumes f: "f = lead cs @ slash_join (a # as)" and t: "t = lead cs @ slash_join (b # bs)" and ne: "a \<noteq> b"
    and sf: "slash_free [a, b]" and len: "len = min (length f) (length t)"
  shows "posix_relative_scan (x # f) (y # t) 1 1 (length f) (length t) len 0 (-1) = Break (int (length (lead cs)) - 1)"
proof -
  obtain a' b' where ab: "a = common_prefix a b @ a'" "b = common_prefix a b @ b'"
      "a' = [] \<or> b' = [] \<or> hd a' \<noteq> hd b'"
    by (rule common_prefix_split [of a b])
  let ?u = "common_prefix a b"
  define n where "n = length (lead cs) + length ?u"
  obtain ra where ra: "slash_join (a # as) = a @ ra" "ra = [] \<or> hd ra = CHAR_FORWARD_SLASH" by (rule slash_join_Cons)
  obtain rb where rb: "slash_join (b # bs) = b @ rb" "rb = [] \<or> hd rb = CHAR_FORWARD_SLASH" by (rule slash_join_Cons)
  have f': "f = (lead cs @ ?u) @ (a' @ ra)" using f ra ab(1) by simp
  have t': "t = (lead cs @ ?u) @ (b' @ rb)" using t rb ab(2) by simp
  have sl: "CHAR_FORWARD_SLASH \<notin> set ?u" "CHAR_FORWARD_SLASH \<notin> set a'" "CHAR_FORWARD_SLASH \<notin> set b'" "a \<noteq> []" "b \<noteq> []"
    using sf ab(1,2) by (metis Un_iff set_append slash_free_simps(2))+
  have ha: "a' \<noteq> [] \<Longrightarrow> hd a' \<noteq> CHAR_FORWARD_SLASH" and hb: "b' \<noteq> [] \<Longrightarrow> hd b' \<noteq> CHAR_FORWARD_SLASH"
    using sl(2,3) hd_in_set by metis+
  have nb: "a' \<noteq> [] \<or> b' \<noteq> []" using ne ab(1,2) by metis
  have nth: "f ! n = hd (a' @ ra)" if "n < length f"
    using that unfolding f' n_def by (cases "a' @ ra") (simp_all add: nth_append)
  have nth': "t ! n = hd (b' @ rb)" if "n < length t"
    using that unfolding t' n_def by (cases "b' @ rb") (simp_all add: nth_append)
  have nl: "n \<le> len" using len f' t' by (simp add: n_def)
  have stop: "f ! n \<noteq> t ! n" if "n < len"
  proof -
    have "a' @ ra \<noteq> []" "b' @ rb \<noteq> []" using that len f' t' by (auto simp: n_def)
    then show ?thesis using nth nth' that len ab(3) ha hb nb ra(2) rb(2)
      by (cases "a' = []"; cases "b' = []") auto
  qed
  have end_t: "t ! n \<noteq> CHAR_FORWARD_SLASH \<and> n \<noteq> 0" if "\<not> n < len" "n < length t"
  proof -
    have "a' @ ra = []" using that len f' by (auto simp: n_def)
    then show ?thesis using nth' that hb nb ab(1) sl(4) by (auto simp: n_def)
  qed
  have end_f: "f ! n \<noteq> CHAR_FORWARD_SLASH \<and> n \<noteq> 0" if "\<not> n < length t" "n < length f"
  proof -
    have "b' @ rb = []" using that t' by (auto simp: n_def)
    then show ?thesis using nth that ha nb ab(2) sl(5) by (auto simp: n_def)
  qed
  have last: "lastIndexOf_upto f CHAR_FORWARD_SLASH n = int (length (lead cs)) - 1"
    using lastIndexOf_upto_sep(1) [OF sl(1), of "slash_join cs" "a' @ ra"]
      lastIndexOf_upto_sep(2) [OF sl(1), of "a' @ ra"] f'
    by (cases "cs = []") (simp_all add: lead_def n_def)
  have "take n f = take n t" unfolding f' t' n_def by simp
  then have "posix_relative_scan (x # f) (y # t) 1 1 (length f) (length t) len 0 (-1) =
      posix_relative_scan (x # f) (y # t) 1 1 (length f) (length t) len n (lastIndexOf_upto f CHAR_FORWARD_SLASH n)"
    using scan_common [OF nl] len by simp
  also have "\<dots> = Break (lastIndexOf_upto f CHAR_FORWARD_SLASH n)"
  proof (rule trans [OF scan_end [OF len nl stop]])
    let ?l = "lastIndexOf_upto f CHAR_FORWARD_SLASH n"
    have "n < length f \<Longrightarrow> \<not> n < length t \<Longrightarrow> f ! n \<noteq> CHAR_FORWARD_SLASH" "n < length f \<Longrightarrow> \<not> n < length t \<Longrightarrow> n \<noteq> 0"
      "n < length t \<Longrightarrow> \<not> n < len \<Longrightarrow> t ! n \<noteq> CHAR_FORWARD_SLASH" "n < length t \<Longrightarrow> \<not> n < len \<Longrightarrow> n \<noteq> 0"
      using end_t end_f by blast+
    then show "(if n < len then Break ?l
       else if n < length t then
         (if t ! n = CHAR_FORWARD_SLASH then Return (drop (Suc n) t) else if n = 0 then Return t else Break ?l)
       else if n < length f then
         (if f ! n = CHAR_FORWARD_SLASH then Break (int n) else if n = 0 then Break 0 else Break ?l)
       else Break ?l) = Break ?l"
      by presburger
  qed
  finally show ?thesis by (simp only: last)
qed

lemma relative_core:
  assumes dirs: "slash_free fs" "slash_free ts" and ne: "fs \<noteq> ts"
    and f: "f = slash_join fs" and t: "t = slash_join ts" and len: "len = min (length f) (length t)"
  shows "relative_finish f t
    (posix_relative_scan (CHAR_FORWARD_SLASH # f) (CHAR_FORWARD_SLASH # t) 1 1 (length f) (length t) len 0 (-1)) =
    slash_join (descend fs ts)"
proof -
  let ?scan = "posix_relative_scan (CHAR_FORWARD_SLASH # f) (CHAR_FORWARD_SLASH # t) 1 1 (length f) (length t) len"
  let ?cs = "common_prefix fs ts"
  obtain fs' ts' where d: "fs = ?cs @ fs'" "ts = ?cs @ ts'" "fs' = [] \<or> ts' = [] \<or> hd fs' \<noteq> hd ts'"
    by (rule common_prefix_split [of fs ts])
  have desc: "descend fs ts = replicate (length fs') dotdot @ ts'"
    using d(1,2) by (metis (no_types, lifting) add_diff_cancel_left' append_eq_conv_conj descend_def length_append)
  have sf: "slash_free fs'" "slash_free ts'" "slash_free ?cs" using dirs d(1,2) by (metis slash_free_simps(3))+
  consider (root_from) "fs = []" | (root_to) "ts = []" "fs \<noteq> []" | (below) "fs' = []" "fs \<noteq> []" "ts \<noteq> []"
    | (above) "ts' = []" "fs' \<noteq> []" "ts \<noteq> []" | (apart) "fs' \<noteq> []" "ts' \<noteq> []"
    using d(1,2) by blast
  then show ?thesis
  proof cases
    case root_from
    then have e: "f = []" "ts \<noteq> []" "t \<noteq> []" using f t ne slash_join_hd(1) [OF dirs(2)] by auto
    have "?scan 0 (-1) = Return t"
      using scan_end [of len f t 0 CHAR_FORWARD_SLASH CHAR_FORWARD_SLASH "-1"] e len
        slash_join_hd(3) [OF dirs(2) e(2)] t by (simp add: hd_conv_nth)
    then show ?thesis using root_from t by (simp add: relative_finish_def descend_def)
  next
    case root_to
    then have e: "t = []" "f \<noteq> []" "hd f \<noteq> CHAR_FORWARD_SLASH"
      using f t slash_join_hd [OF dirs(1)] by auto
    have sc: "?scan 0 (-1) = Break 0"
      using scan_end [of len f t 0 CHAR_FORWARD_SLASH CHAR_FORWARD_SLASH "-1"] e len by (simp add: hd_conv_nth)
    obtain c g where g: "f = c # g" using e(2) by (cases f) auto
    have "climb CHAR_FORWARD_SLASH ([CHAR_FORWARD_SLASH, c] @ g) (2 + length g) (length [CHAR_FORWARD_SLASH, c]) [] =
        slash_join (replicate (Suc (count_list g CHAR_FORWARD_SLASH)) dotdot)"
      using climb_ok [of 0 "[]" CHAR_FORWARD_SLASH "[CHAR_FORWARD_SLASH, c]" g] by simp
    moreover have "Suc (count_list g CHAR_FORWARD_SLASH) = length fs"
      using count_slash_join [OF dirs(1) root_to(2)] e(3) g f by auto
    ultimately have "relative_finish f t (Break 0) = slash_join (replicate (length fs) dotdot)"
      using root_to(2) join_Nil_iff [of "replicate (length fs) dotdot" CHAR_FORWARD_SLASH] e(1) g
      by (simp add: relative_finish_def js_slice_from_def slice_index_def numeral_2_eq_2)
    then show ?thesis using sc root_to by (simp add: descend_def)
  next
    case below
    then have e: "t = f @ CHAR_FORWARD_SLASH # slash_join ts'" "ts' \<noteq> []"
      using d(1,2) ne f t by (metis append_Nil2 join_append)+
    have "?scan 0 (-1) = ?scan (length f) (lastIndexOf_upto f CHAR_FORWARD_SLASH (length f))"
      using scan_common [of "length f" len f t] e(1) len by simp
    also have "\<dots> = Return (slash_join ts')"
      using scan_end [of len f t "length f" CHAR_FORWARD_SLASH CHAR_FORWARD_SLASH] e(1) len by (simp add: nth_append)
    finally show ?thesis using below desc by (simp add: relative_finish_def)
  next
    case above
    then have e: "f = (t @ [CHAR_FORWARD_SLASH]) @ slash_join fs'"
      using d(1,2) f t by (metis append_Nil2 append_assoc append_Cons append_Nil join_append)
    have "?scan 0 (-1) = ?scan (length t) (lastIndexOf_upto f CHAR_FORWARD_SLASH (length t))"
      using scan_common [of "length t" len f t] e(1) len by simp
    also have "\<dots> = Break (int (length t))"
      using scan_end [of len f t "length t" CHAR_FORWARD_SLASH CHAR_FORWARD_SLASH] e(1) len by (simp add: nth_append)
    finally show ?thesis
      using relative_finish_break [OF e sf(1) above(2), of "int (length t)" t] above desc by simp
  next
    case apart
    then obtain a as b bs where ab: "fs' = a # as" "ts' = b # bs" "a \<noteq> b" using d(3) by (cases fs'; cases ts') auto
    have f': "f = lead ?cs @ slash_join fs'" using f d(1) slash_join_lead [OF apart(1)] by metis
    have t': "t = lead ?cs @ slash_join ts'" using t d(2) slash_join_lead [OF apart(2)] by metis
    have "?scan 0 (-1) = Break (int (length (lead ?cs)) - 1)"
      by (rule scan_diverging [OF f' [unfolded ab] t' [unfolded ab] ab(3) _ len]) (use sf ab in simp)
    moreover have "relative_finish f t (Break (int (length (lead ?cs)) - 1)) =
        slash_join (replicate (length fs') dotdot) @ CHAR_FORWARD_SLASH # slash_join ts'"
      using relative_finish_break [OF f' sf(1) apart(1) refl, of t] drop_lead t' by metis
    moreover have "slash_join (replicate (length fs') dotdot) @ CHAR_FORWARD_SLASH # slash_join ts' =
        slash_join (replicate (length fs') dotdot @ ts')"
      using join_append [of "replicate (length fs') dotdot" ts' CHAR_FORWARD_SLASH] apart by simp
    ultimately show ?thesis using desc by simp
  qed
qed

lemma slash_join_inject:
  assumes "slash_free fs" "slash_free ts" "slash_join fs = slash_join ts"
  shows "fs = ts"
proof (cases "fs = [] \<or> ts = []")
  case True
  then show ?thesis using slash_join_empty [OF assms(1)] slash_join_empty [OF assms(2)] assms(3) by auto
next
  case False
  then have "segments is_slash [] (slash_join fs) = fs" "segments is_slash [] (slash_join ts) = ts"
    using slash_free_sep [OF assms(1)] slash_free_sep [OF assms(2)] by (auto intro!: segments_join simp only: is_slash_iff)
  then show ?thesis using assms(3) by metis
qed

lemma posix_relative_scanned:
  assumes "from \<noteq> to" "posix_resolve cwd [from] = CHAR_FORWARD_SLASH # f" "posix_resolve cwd [to] = CHAR_FORWARD_SLASH # t"
    "f \<noteq> t" "trim_leading CHAR_FORWARD_SLASH (CHAR_FORWARD_SLASH # f) 1 = 1"
    "trim_leading CHAR_FORWARD_SLASH (CHAR_FORWARD_SLASH # t) 1 = 1"
  shows "posix_relative cwd from to = relative_finish f t
        (posix_relative_scan (CHAR_FORWARD_SLASH # f) (CHAR_FORWARD_SLASH # t) 1 1 (length f) (length t)
          (min (length f) (length t)) 0 (-1))"
proof -
  have m: "(if length f < length t then length f else length t) = min (length f) (length t)" by (simp add: min_def)
  have l: "length (CHAR_FORWARD_SLASH # s) - 1 = length s" "length (CHAR_FORWARD_SLASH # s) = Suc (length s)" for s by simp_all
  show ?thesis
    using assms(1,4)
    unfolding posix_relative_def assms(2,3,5,6) Let_def relative_finish_def l m of_nat_1 by simp
qed

lemma posix_relative_ok:
  assumes cwd: "cwd \<noteq> []" "hd cwd = CHAR_FORWARD_SLASH"
    and fs: "fs = cd (posix_segments False cwd) [from]" and ts: "ts = cd (posix_segments False cwd) [to]"
  shows "posix_relative cwd from to = (if fs = ts then [] else slash_join (descend fs ts))"
proof -
  have "directory fs" "directory ts" by (simp_all only: fs ts directory_cd directory_segments)
  then have sf: "slash_free fs" "slash_free ts" by (simp_all add: directory_def)
  note r = posix_resolve_cd [OF cwd, of "[from]", folded fs] posix_resolve_cd [OF cwd, of "[to]", folded ts]
  have same: "posix_resolve cwd [from] = posix_resolve cwd [to] \<longleftrightarrow> fs = ts"
    using slash_join_inject [OF sf] unfolding r list.inject by blast
  show ?thesis
  proof (cases "fs = ts")
    case True
    then show ?thesis using same unfolding posix_relative_def Let_def by simp
  next
    case False
    let ?f = "slash_join fs" and ?t = "slash_join ts"
    have ft: "from \<noteq> to" using False unfolding fs ts by blast
    have tr: "trim_leading CHAR_FORWARD_SLASH (CHAR_FORWARD_SLASH # slash_join ss) 1 = 1" if "slash_free ss" for ss
      by (rule trim_leading_slash) (use slash_join_hd(3) [OF that] in \<open>cases "ss = []"; simp\<close>)
    have ne: "?f \<noteq> ?t" using False slash_join_inject [OF sf] by blast
    have "posix_relative cwd from to = relative_finish ?f ?t
        (posix_relative_scan (CHAR_FORWARD_SLASH # ?f) (CHAR_FORWARD_SLASH # ?t) 1 1 (length ?f) (length ?t)
          (min (length ?f) (length ?t)) 0 (-1))"
      by (rule posix_relative_scanned [OF ft r ne tr [OF sf(1)] tr [OF sf(2)]])
    then show ?thesis using relative_core [OF sf False refl refl refl] False by simp
  qed
qed

lemma slash_free_dotdots [simp]: "slash_free (replicate n dotdot)"
  by (induction n) (simp_all add: char_defs)

text \<open>
  C14. \<^verbatim>\<open>path.posix.relative\<close> and \<^verbatim>\<open>path.posix.resolve\<close> are inverse: with an absolute working
  directory, resolving \<^verbatim>\<open>relative(from, to)\<close> from \<^verbatim>\<open>from\<close> leads to \<^verbatim>\<open>to\<close>.
\<close>

theorem posix_resolve_relative:
  assumes cwd: "cwd \<noteq> []" "hd cwd = CHAR_FORWARD_SLASH"
  shows "posix_resolve cwd [from, posix_relative cwd from to] = posix_resolve cwd [to]"
proof -
  let ?c = "posix_segments False cwd"
  define fs where "fs = cd ?c [from]"
  define ts where "ts = cd ?c [to]"
  have dirs: "directory fs" "directory ts" by (simp_all only: fs_def ts_def directory_cd directory_segments)
  have sf: "slash_free fs" "slash_free ts" using dirs by (simp_all add: directory_def)
  let ?r = "posix_relative cwd from to"
  have r: "?r = (if fs = ts then [] else slash_join (descend fs ts))"
    by (rule posix_relative_ok [OF cwd fs_def ts_def])
  have "cd fs [?r] = ts"
  proof (cases "fs = ts")
    case True
    then show ?thesis using r by simp
  next
    case False
    define cs where "cs = common_prefix fs ts"
    obtain fs' ts' where d: "fs = cs @ fs'" "ts = cs @ ts'"
      using common_prefix_split [of fs ts] unfolding cs_def by blast
    have len: "length fs = length cs + length fs'" "take (length cs) fs = cs" "drop (length cs) ts = ts'"
      using d by simp_all
    have desc: "descend fs ts = replicate (length fs') dotdot @ ts'"
      unfolding descend_def cs_def [symmetric] Let_def by (simp add: len(1) len(3))
    have ne: "descend fs ts \<noteq> []" using desc d False by auto
    have "slash_free ts'" using sf(2) unfolding d(2) by simp
    then have sfd: "slash_free (descend fs ts)" by (simp add: desc)
    have "segments is_slash [] ?r = descend fs ts"
      using r False segments_join [OF ne slash_free_sep [OF sfd], of CHAR_FORWARD_SLASH] by (simp add: is_slash_iff)
    moreover have "?r \<noteq> []" "hd ?r \<noteq> CHAR_FORWARD_SLASH" using r False slash_join_hd [OF sfd ne] by simp_all
    ultimately have "cd fs [?r] = fold (push_segment False) (descend fs ts) fs" by simp
    also have "\<dots> = fold (push_segment False) ts' (take (length fs - length fs') fs)"
      using fold_push_pop [OF directory_proper [OF dirs(1)], of "length fs'" False] by (simp add: desc len(1))
    also have "take (length fs - length fs') fs = cs" by (simp add: len)
    also have "fold (push_segment False) ts' cs = ts"
      using fold_push_proper [of ts' False cs] directory_proper [OF dirs(2)] unfolding d(2) by simp
    finally show ?thesis .
  qed
  then have "cd ?c [from, ?r] = cd ?c [to]" using cd_append [of ?c "[from]" "[?r]"] by (simp add: fs_def ts_def)
  then show ?thesis by (simp only: posix_resolve_cd [OF cwd])
qed

theorem posix_resolve_relative_witness:
  "posix_relative (str ''/w'') (str ''/data/a/b'') (str ''/data/abc/c'') = str ''../../abc/c'' \<and>
   posix_resolve (str ''/w'') [str ''/data/a/b'', str ''../../abc/c''] = posix_resolve (str ''/w'') [str ''/data/abc/c'']"
proof -
  have c: "str ''/w'' \<noteq> []" "hd (str ''/w'') = CHAR_FORWARD_SLASH" by code_simp+
  have r: "posix_relative (str ''/w'') (str ''/data/a/b'') (str ''/data/abc/c'') = str ''../../abc/c''" by code_simp
  show ?thesis using posix_resolve_relative [OF c, of "str ''/data/a/b''" "str ''/data/abc/c''"] unfolding r by blast
qed

end
