(* ===== verification/Path_Components.thy ===== *)
theory Path_Components
  imports Path_Posix "HOL-Library.Sublist"
begin

text \<open>
  The last component of a path. \<^verbatim>\<open>dirname\<close>, \<^verbatim>\<open>basename\<close>, \<^verbatim>\<open>extname\<close> and \<^verbatim>\<open>parse\<close>, in both flavours,
  scan the path from its end with a handful of mutable indices; here these scans are shown to compute
  the parts of the decomposition of the path into a leading part, the last component and the trailing
  separators, and the decomposition of the last component into a name and an extension.
\<close>

section \<open>The parts of a path\<close>

lemma takeWhile_split:
  "\<forall>c \<in> set xs. p c \<Longrightarrow> ys = [] \<or> \<not> p (hd ys) \<Longrightarrow> takeWhile p (xs @ ys) = xs \<and> dropWhile p (xs @ ys) = ys"
  by (induction xs; cases ys) auto

definition trailing_seps :: "(nat \<Rightarrow> bool) \<Rightarrow> js_string \<Rightarrow> js_string" where
  "trailing_seps p s = rev (takeWhile p (rev s))"

definition last_component :: "(nat \<Rightarrow> bool) \<Rightarrow> js_string \<Rightarrow> js_string" where
  "last_component p s = rev (takeWhile (\<lambda>c. \<not> p c) (dropWhile p (rev s)))"

definition leading_part :: "(nat \<Rightarrow> bool) \<Rightarrow> js_string \<Rightarrow> js_string" where
  "leading_part p s = rev (dropWhile (\<lambda>c. \<not> p c) (dropWhile p (rev s)))"

definition parts :: "(nat \<Rightarrow> bool) \<Rightarrow> js_string \<Rightarrow> js_string \<Rightarrow> js_string \<Rightarrow> js_string \<Rightarrow> bool" where
  "parts p s d b t \<longleftrightarrow>
     s = d @ b @ t \<and> (\<forall>c \<in> set t. p c) \<and> (\<forall>c \<in> set b. \<not> p c) \<and> (d = [] \<or> b \<noteq> [] \<and> p (last d))"

lemma parts_split: "parts p s (leading_part p s) (last_component p s) (trailing_seps p s)"
proof -
  let ?r = "dropWhile p (rev s)"
  have "s = rev ?r @ trailing_seps p s"
    unfolding trailing_seps_def by (metis rev_append rev_rev_ident takeWhile_dropWhile_id)
  moreover have "rev ?r = leading_part p s @ last_component p s"
    unfolding leading_part_def last_component_def by (metis rev_append takeWhile_dropWhile_id)
  moreover have "\<forall>c \<in> set (trailing_seps p s). p c" "\<forall>c \<in> set (last_component p s). \<not> p c"
    unfolding trailing_seps_def last_component_def set_rev using set_takeWhileD by fast+
  moreover have "last_component p s \<noteq> [] \<and> p (last (leading_part p s))" if "leading_part p s \<noteq> []"
  proof -
    have ne: "dropWhile (\<lambda>c. \<not> p c) ?r \<noteq> []" using that by (simp add: leading_part_def)
    have "p (hd (dropWhile (\<lambda>c. \<not> p c) ?r))" using hd_dropWhile [OF ne] by simp
    moreover have "?r \<noteq> []" using ne by (metis dropWhile.simps(1))
    then have "\<not> p (hd ?r)" by (rule hd_dropWhile)
    ultimately show ?thesis using ne \<open>?r \<noteq> []\<close>
      by (cases ?r) (simp_all add: leading_part_def last_component_def last_rev)
  qed
  ultimately show ?thesis unfolding parts_def by auto
qed

lemma parts_unique:
  assumes "parts p s d b t"
  shows "leading_part p s = d" "last_component p s = b" "trailing_seps p s = t"
proof -
  have s: "s = d @ b @ t" and t: "\<forall>c \<in> set (rev t). p c" and b: "\<forall>c \<in> set (rev b). \<not> p c"
    and d: "d = [] \<or> b \<noteq> [] \<and> p (last d)" using assms by (auto simp: parts_def)
  have "rev b @ rev d = [] \<or> \<not> p (hd (rev b @ rev d))"
    using b d by (cases "rev b") auto
  then have r: "takeWhile p (rev s) = rev t" "dropWhile p (rev s) = rev b @ rev d"
    using takeWhile_split [OF t, of "rev b @ rev d"] by (simp_all add: s)
  have "rev d = [] \<or> p (hd (rev d))" using d by (auto simp: hd_rev)
  then have "takeWhile (\<lambda>c. \<not> p c) (rev b @ rev d) = rev b" "dropWhile (\<lambda>c. \<not> p c) (rev b @ rev d) = rev d"
    using takeWhile_split [OF b, of "rev d"] by simp_all
  then show "leading_part p s = d" "last_component p s = b" "trailing_seps p s = t"
    by (simp_all add: leading_part_def last_component_def trailing_seps_def r)
qed

section \<open>The scan of basename\<close>

text \<open>The three phases of the scan: trailing separators, the component, the separator before it.\<close>

lemma basename_scan_seps:
  assumes "start \<le> k" "k \<le> n" "\<And>j. k \<le> j \<Longrightarrow> j < n \<Longrightarrow> isSep (charCodeAt path (int j))"
  shows "basename_scan isSep start path n True e = basename_scan isSep start path k True e"
  using assms(2,3)
proof (induction n)
  case (Suc n)
  show ?case
  proof (cases "k = Suc n")
    case False
    then have "isSep (charCodeAt path (int n))" "start \<le> n" using Suc.prems assms(1) by simp_all
    then show ?thesis using Suc False by simp
  qed simp
qed simp

lemma basename_scan_name:
  assumes "start \<le> k" "k \<le> n" "\<And>j. k \<le> j \<Longrightarrow> j < n \<Longrightarrow> \<not> isSep (charCodeAt path (int j))" "e \<noteq> -1"
  shows "basename_scan isSep start path n False e = basename_scan isSep start path k False e"
  using assms(2,3)
proof (induction n)
  case (Suc n)
  show ?case
  proof (cases "k = Suc n")
    case False
    then have "\<not> isSep (charCodeAt path (int n))" "start \<le> n" using Suc.prems assms(1) by simp_all
    then show ?thesis using Suc False assms(4) by simp
  qed simp
qed simp

text \<open>The positions of the parts of a path that follows a prefix.\<close>

lemma parts_nth:
  assumes "parts (\<lambda>c. isSep (Some c)) s d b t" "path = pre @ s" "m = length pre + length d" "n = m + length b"
  shows "n \<le> j \<Longrightarrow> j < length path \<Longrightarrow> isSep (charCodeAt path (int j))"
    "m \<le> j \<Longrightarrow> j < n \<Longrightarrow> \<not> isSep (charCodeAt path (int j))"
    "m \<le> j \<Longrightarrow> j < n \<Longrightarrow> charCodeAt path (int j) = Some (b ! (j - m))"
    "d \<noteq> [] \<Longrightarrow> isSep (charCodeAt path (int (m - 1)))"
proof -
  have path: "path = (pre @ d) @ b @ t" using assms(1,2) by (simp add: parts_def)
  have len: "m = length (pre @ d)" "n = length (pre @ d @ b)" using assms(3,4) by simp_all
  have t: "\<forall>c \<in> set t. isSep (Some c)" and b: "\<forall>c \<in> set b. \<not> isSep (Some c)" and d: "d = [] \<or> isSep (Some (last d))"
    using assms(1) by (auto simp: parts_def)
  show "isSep (charCodeAt path (int j))" if "n \<le> j" "j < length path"
  proof -
    have "path = (pre @ d @ b) @ t" using path by simp
    then have "path ! j = t ! (j - n)" "j - n < length t" using that by (simp_all only: nth_append len) auto
    then show ?thesis using t that by simp
  qed
  show c: "charCodeAt path (int j) = Some (b ! (j - m))" if "m \<le> j" "j < n"
  proof -
    have "path ! j = (b @ t) ! (j - m)" using that(1) nth_append [of "pre @ d" "b @ t" j] unfolding path len(1) by simp
    moreover have "j - m < length b" using that assms(4) by linarith
    ultimately have "path ! j = b ! (j - m)" by (simp add: nth_append)
    moreover have "j < length path" using that assms(4) by (simp add: path len(1))
    ultimately show ?thesis by simp
  qed
  show "\<not> isSep (charCodeAt path (int j))" if "m \<le> j" "j < n"
    using c [OF that] b that assms(4) by simp
  show "isSep (charCodeAt path (int (m - 1)))" if ne: "d \<noteq> []"
  proof -
    obtain d' x where d': "d = d' @ [x]" using ne by (cases d rule: rev_cases) auto
    have m1: "m - 1 = length (pre @ d')" by (simp add: len(1) d')
    have "path ! (m - 1) = last d" unfolding m1 path d' using nth_append_length [of "pre @ d'" x "b @ t"] by simp
    moreover have "m - 1 < length path" unfolding m1 by (simp add: path d')
    ultimately show ?thesis using d ne by simp
  qed
qed

lemma basename_scan_ok:
  assumes "parts (\<lambda>c. isSep (Some c)) s d b t" "path = pre @ s" "length pre = start"
  shows "basename_scan isSep start path (length path) True (-1) =
    (if b = [] then (int start, -1)
     else (int (start + length d), int (start + length d + length b)))"
proof -
  define m n where "m = length pre + length d" and "n = m + length b"
  note nth = parts_nth [OF assms(1,2) m_def n_def]
  have len: "start \<le> m" "m \<le> n" "n \<le> length path" using assms by (simp_all add: m_def n_def parts_def)
  have 1: "basename_scan isSep start path (length path) True (-1) = basename_scan isSep start path n True (-1)"
    using basename_scan_seps [of start n "length path" isSep path] len nth(1) by auto
  show ?thesis
  proof (cases "b = []")
    case True
    then have "d = []" using assms(1) by (simp add: parts_def)
    then show ?thesis using True assms(3) unfolding 1 n_def m_def by (cases start) simp_all
  next
    case False
    then obtain n' where n': "n = Suc n'" "m \<le> n'" unfolding n_def by (cases b) auto
    have "\<not> isSep (charCodeAt path (int n'))" using nth(2) [of n'] n' by simp
    then have "basename_scan isSep start path n True (-1) = basename_scan isSep start path n' False (int n)"
      using n' len by (simp add: add.commute)
    also have "\<dots> = basename_scan isSep start path m False (int n)"
      using basename_scan_name [of start m n' isSep path "int n"] n' len nth(2) by auto
    also have "\<dots> = (int m, int n)"
    proof (cases "d = []")
      case True
      then show ?thesis using assms(3) by (cases m) (simp_all add: m_def)
    next
      case d: False
      then have "m = Suc (m - 1)" "start \<le> m - 1" using assms(3) by (cases d; simp add: m_def)+
      then show ?thesis using nth(4) [OF d] basename_scan.simps(2) [of isSep start path "m - 1" False "int n"] by simp
    qed
    finally show ?thesis using 1 False assms(3) by (simp add: m_def n_def)
  qed
qed

section \<open>The scan of extname and parse\<close>

definition name_of :: "js_string \<Rightarrow> js_string" where
  "name_of b = (let l = js_lastIndexOf b CHAR_DOT in if l \<le> 0 \<or> b = [CHAR_DOT, CHAR_DOT] then b else take (nat l) b)"

definition ext_of :: "js_string \<Rightarrow> js_string" where
  "ext_of b = (let l = js_lastIndexOf b CHAR_DOT in if l \<le> 0 \<or> b = [CHAR_DOT, CHAR_DOT] then [] else drop (nat l) b)"

lemma name_ext: "name_of b @ ext_of b = b"
  by (simp add: name_of_def ext_of_def Let_def)

lemma lastIndexOf_upto_Cons: "lastIndexOf_upto (c # s) d (Suc k) =
    (let l = lastIndexOf_upto s d k in if l \<noteq> -1 then l + 1 else if c = d then 0 else -1)"
  by (induction k) (auto simp: Let_def)

lemma lastIndexOf_upto_ge: "lastIndexOf_upto s d k = -1 \<or> 0 \<le> lastIndexOf_upto s d k \<and> lastIndexOf_upto s d k < int k"
  by (induction k) auto

lemma js_lastIndexOf_Cons: "js_lastIndexOf (c # s) d =
    (let l = js_lastIndexOf s d in if l \<noteq> -1 then l + 1 else if c = d then 0 else -1)"
  unfolding js_lastIndexOf_def list.size add_0_right add_Suc_right by (rule lastIndexOf_upto_Cons)

lemma js_lastIndexOf_bounds: "js_lastIndexOf s d = -1 \<or> 0 \<le> js_lastIndexOf s d \<and> js_lastIndexOf s d < int (length s)"
  unfolding js_lastIndexOf_def by (rule lastIndexOf_upto_ge)

lemma js_lastIndexOf_Nil [simp]: "js_lastIndexOf [] d = -1"
  by (simp add: js_lastIndexOf_def)

text \<open>The state of the scan once the suffix \<open>y\<close> of the component has been read; it starts at index \<open>k\<close>.\<close>

definition scanned :: "int \<Rightarrow> nat \<Rightarrow> js_string \<Rightarrow> ext_scan" where
  "scanned startPart k y =
     (let l = js_lastIndexOf y CHAR_DOT in
      \<lparr>e_startDot = (if l = -1 then -1 else int k + l), e_startPart = startPart, e_end = int (k + length y),
       e_matchedSlash = False,
       e_preDotState = (if l \<le> 0 then 0 else if hd y = CHAR_DOT then 1 else -1)\<rparr>)"

lemma extname_scan_seps:
  assumes "start \<le> k" "k \<le> n" "\<And>j. k \<le> j \<Longrightarrow> j < n \<Longrightarrow> isSep (charCodeAt path (int j))" "e_matchedSlash st"
  shows "extname_scan isSep start path n st = extname_scan isSep start path k st"
  using assms(2,3)
proof (induction n)
  case (Suc n)
  show ?case
  proof (cases "k = Suc n")
    case False
    then have "isSep (charCodeAt path (int n))" "start \<le> n" using Suc.prems assms(1) by simp_all
    then show ?thesis using Suc False assms(4) by (simp add: Let_def)
  qed simp
qed simp

lemma extname_scan_first:
  assumes "start \<le> k" "charCodeAt path (int k) = Some c" "\<not> isSep (Some c)"
  shows "extname_scan isSep start path (Suc k) (scan_init sp) = extname_scan isSep start path k (scanned sp k [c])"
  using assms by (auto simp: scan_init_def scanned_def js_lastIndexOf_Cons Let_def algebra_simps)

lemma extname_scan_next:
  assumes "start \<le> k" "charCodeAt path (int k) = Some c" "\<not> isSep (Some c)" "y \<noteq> []"
  shows "extname_scan isSep start path (Suc k) (scanned sp (Suc k) y) = extname_scan isSep start path k (scanned sp k (c # y))"
  using assms js_lastIndexOf_bounds [of y CHAR_DOT] by (auto simp: scanned_def js_lastIndexOf_Cons Let_def algebra_simps)

lemma extname_scan_name:
  assumes "start \<le> k" "y \<noteq> []" "\<And>i. i < length x \<Longrightarrow> charCodeAt path (int (k + i)) = Some (x ! i)"
    "\<forall>c \<in> set x. \<not> isSep (Some c)"
  shows "extname_scan isSep start path (k + length x) (scanned sp (k + length x) y) =
    extname_scan isSep start path k (scanned sp k (x @ y))"
  using assms
proof (induction x arbitrary: y rule: rev_induct)
  case (snoc c x)
  have "charCodeAt path (int (k + length x)) = Some c" using snoc.prems(3) [of "length x"] by simp
  then have "extname_scan isSep start path (Suc (k + length x)) (scanned sp (Suc (k + length x)) y) =
      extname_scan isSep start path (k + length x) (scanned sp (k + length x) (c # y))"
    using snoc.prems by (intro extname_scan_next) simp_all
  also have "\<dots> = extname_scan isSep start path k (scanned sp k (x @ c # y))"
  proof (rule snoc.IH)
    show "charCodeAt path (int (k + i)) = Some (x ! i)" if "i < length x" for i
      using snoc.prems(3) [of i] that by (simp add: nth_append)
  qed (use snoc.prems in simp_all)
  finally show ?case by simp
qed simp

lemma extname_scan_ok:
  assumes "parts (\<lambda>c. isSep (Some c)) s d b t" "path = pre @ s" "length pre = start"
  shows "extname_scan isSep start path (length path) (scan_init sp) =
    (if b = [] then scan_init sp
     else scanned (if d = [] then sp else int (start + length d)) (start + length d) b)"
proof -
  define m n where "m = length pre + length d" and "n = m + length b"
  note nth = parts_nth [OF assms(1,2) m_def n_def]
  have len: "start \<le> m" "m \<le> n" "n \<le> length path" using assms by (simp_all add: m_def n_def parts_def)
  have 1: "extname_scan isSep start path (length path) (scan_init sp) = extname_scan isSep start path n (scan_init sp)"
    using extname_scan_seps [of start n "length path" isSep path "scan_init sp"] len nth(1) by (auto simp: scan_init_def)
  show ?thesis
  proof (cases "b = []")
    case True
    then have "d = []" using assms(1) by (simp add: parts_def)
    then show ?thesis using True assms(3) unfolding 1 n_def m_def by (cases start) simp_all
  next
    case False
    then obtain x c where b: "b = x @ [c]" by (cases b rule: rev_cases) auto
    have nb: "\<forall>c \<in> set b. \<not> isSep (Some c)" using assms(1) by (simp add: parts_def)
    have n: "n = Suc (m + length x)" by (simp add: n_def b)
    have "extname_scan isSep start path n (scan_init sp) =
        extname_scan isSep start path (m + length x) (scanned sp (m + length x) [c])"
      unfolding n using len(1) nb nth(3) [of "m + length x"] by (intro extname_scan_first) (simp_all add: n b)
    also have "\<dots> = extname_scan isSep start path m (scanned sp m (x @ [c]))"
    proof (rule extname_scan_name)
      show "charCodeAt path (int (m + i)) = Some (x ! i)" if "i < length x" for i
        using nth(3) [of "m + i"] that by (simp add: n b nth_append)
    qed (use len nb b in simp_all)
    also have "\<dots> = scanned (if d = [] then sp else int m) m b"
    proof (cases "d = []")
      case True
      then show ?thesis using assms(3) b by (cases m) (simp_all add: m_def)
    next
      case d: False
      then have "m = Suc (m - 1)" "start \<le> m - 1" using assms(3) by (cases d; simp add: m_def)+
      then show ?thesis using nth(4) [OF d] d b extname_scan.simps(2) [of isSep start path "m - 1" "scanned sp m b"]
        by (simp add: scanned_def Let_def)
    qed
    finally show ?thesis using 1 False assms(3) by (simp add: m_def)
  qed
qed

text \<open>
  Whether there is an extension. The test for \<^verbatim>\<open>..\<close> compares with \<^verbatim>\<open>startPart\<close>, so it works as
  intended when that is the index where the component starts.
\<close>

lemma no_extension_scanned:
  assumes "b \<noteq> []"
  shows "no_extension (scanned (int k) k b) \<longleftrightarrow> ext_of b = []"
    "\<not> no_extension (scanned (int k) k b) \<Longrightarrow>
       0 < js_lastIndexOf b CHAR_DOT \<and> ext_of b = drop (nat (js_lastIndexOf b CHAR_DOT)) b \<and>
       name_of b = take (nat (js_lastIndexOf b CHAR_DOT)) b"
proof -
  let ?l = "js_lastIndexOf b CHAR_DOT"
  have dd: "hd b = CHAR_DOT \<and> ?l = int (length b) - 1 \<and> ?l = 1 \<longleftrightarrow> b = [CHAR_DOT, CHAR_DOT]"
  proof
    assume h: "hd b = CHAR_DOT \<and> ?l = int (length b) - 1 \<and> ?l = 1"
    then obtain c where b: "b = [CHAR_DOT, c]" using assms by (cases b; cases "tl b") auto
    then show "b = [CHAR_DOT, CHAR_DOT]" using h by (simp add: js_lastIndexOf_Cons Let_def split: if_splits)
  qed (simp add: js_lastIndexOf_Cons)
  have bnd: "?l = -1 \<or> 0 \<le> ?l \<and> ?l < int (length b)" by (rule js_lastIndexOf_bounds)
  have ne: "no_extension (scanned (int k) k b) \<longleftrightarrow> ?l \<le> 0 \<or> b = [CHAR_DOT, CHAR_DOT]"
    unfolding dd [symmetric] using bnd by (auto simp: no_extension_def scanned_def Let_def)
  show "no_extension (scanned (int k) k b) \<longleftrightarrow> ext_of b = []"
    using ne bnd by (auto simp: ext_of_def Let_def)
  show "0 < ?l \<and> ext_of b = drop (nat ?l) b \<and> name_of b = take (nat ?l) b" if "\<not> no_extension (scanned (int k) k b)"
    using ne that by (simp add: ext_of_def name_of_def Let_def)
qed

section \<open>The scan of basename with an extension\<close>

lemma ext_scan_seps:
  assumes "start \<le> k" "k \<le> n" "\<And>j. k \<le> j \<Longrightarrow> j < n \<Longrightarrow> isSep (charCodeAt path (int j))"
  shows "basename_ext_scan isSep start path ext n True e f r = basename_ext_scan isSep start path ext k True e f r"
  using assms(2,3)
proof (induction n)
  case (Suc n)
  show ?case
  proof (cases "k = Suc n")
    case False
    then have "isSep (charCodeAt path (int n))" "start \<le> n" using Suc.prems assms(1) by simp_all
    then show ?thesis using Suc False by (simp add: Let_def)
  qed simp
qed simp

text \<open>The state after the suffix \<open>y\<close> of the component, which ends at \<open>n\<close>, has been compared with \<open>ext\<close>.\<close>

definition ext_idx :: "js_string \<Rightarrow> js_string \<Rightarrow> int" where
  "ext_idx ext y = (if suffix y ext then int (length ext) - 1 - int (length y) else -1)"

definition ext_end :: "js_string \<Rightarrow> nat \<Rightarrow> js_string \<Rightarrow> int" where
  "ext_end ext n y = (if suffix ext y then int n - int (length ext) else if suffix y ext then -1 else int n)"

lemma suffix_next:
  assumes "suffix y ext" "y \<noteq> ext"
  shows "charCodeAt ext (ext_idx ext y) = Some c \<longleftrightarrow> suffix (c # y) ext" "0 \<le> ext_idx ext y"
proof -
  obtain zs where zs: "ext = zs @ y" using assms(1) by (auto simp: suffix_def)
  then obtain us u where us: "zs = us @ [u]" using assms(2) by (cases zs rule: rev_cases) auto
  have ext: "ext = us @ u # y" using zs us by simp
  have idx: "ext_idx ext y = int (length us)" unfolding ext_idx_def using assms(1) by (simp add: ext)
  show "0 \<le> ext_idx ext y" by (simp add: idx)
  show "charCodeAt ext (ext_idx ext y) = Some c \<longleftrightarrow> suffix (c # y) ext"
    unfolding idx by (auto simp: ext suffix_def)
qed

lemma suffix_done:
  assumes "\<not> (suffix y ext \<and> y \<noteq> ext)"
  shows "ext_idx ext y = -1" "ext_idx ext (c # y) = -1" "ext_end ext n (c # y) = ext_end ext n y"
proof -
  have c: "\<not> suffix (c # y) ext" using assms by (auto dest: suffix_length_le suffix_ConsD)
  show "ext_idx ext y = -1" using assms by (auto simp: ext_idx_def)
  show "ext_idx ext (c # y) = -1" using c by (simp add: ext_idx_def)
  have "suffix ext (c # y) \<longleftrightarrow> suffix ext y" using c by (auto simp: suffix_Cons)
  moreover have "suffix ext y \<or> \<not> suffix y ext" using assms by auto
  ultimately show "ext_end ext n (c # y) = ext_end ext n y" using c by (auto simp: ext_end_def)
qed

lemma ext_scan_next:
  assumes "start \<le> k" "charCodeAt path (int k) = Some c" "\<not> isSep (Some c)" "ext \<noteq> []" "n = Suc k + length y"
  shows "basename_ext_scan isSep start path ext (Suc k) (y = []) (ext_idx ext y) (if y = [] then -1 else int n) (ext_end ext n y) =
    basename_ext_scan isSep start path ext k False (ext_idx ext (c # y)) (int n) (ext_end ext n (c # y))"
proof -
  have f: "(if (if y = [] then - 1 else int n) = -1 then int k + 1 else (if y = [] then - 1 else int n)) = int n"
    using assms(5) by simp
  have ms: "(if (if y = [] then - 1 else int n) = -1 then False else y = []) = False" by simp
  show ?thesis
  proof (cases "suffix y ext \<and> y \<noteq> ext")
    case True
    have nxt: "charCodeAt ext (ext_idx ext y) = Some c \<longleftrightarrow> suffix (c # y) ext" "0 \<le> ext_idx ext y"
      using suffix_next True by simp_all
    show ?thesis
    proof (cases "suffix (c # y) ext")
      case match: True
      have i: "ext_idx ext (c # y) = ext_idx ext y - 1" using True match by (simp add: ext_idx_def)
      obtain zs where zs: "ext = zs @ c # y" using match by (auto simp: suffix_def)
      have "ext_idx ext y - 1 = -1 \<longleftrightarrow> c # y = ext"
        unfolding i [symmetric] ext_idx_def using match by (auto simp: zs suffix_Cons)
      then have "ext_end ext n (c # y) = (if ext_idx ext y - 1 = -1 then int k else ext_end ext n y)"
        using match True assms(5) by (auto simp: ext_end_def dest: suffix_length_le)
      then show ?thesis using True match nxt assms i by (simp add: Let_def f ms)
    next
      case False
      have "ext_idx ext (c # y) = -1" "ext_end ext n (c # y) = int n"
        using False True by (auto simp: ext_idx_def ext_end_def suffix_Cons dest: suffix_order.antisym)
      then show ?thesis using True False nxt assms by (simp add: Let_def f ms)
    qed
  next
    case False
    then show ?thesis using assms suffix_done [OF False] by (simp add: Let_def f ms)
  qed
qed

lemma ext_scan_name:
  assumes "start \<le> k" "y \<noteq> []" "\<And>i. i < length x \<Longrightarrow> charCodeAt path (int (k + i)) = Some (x ! i)"
    "\<forall>c \<in> set x. \<not> isSep (Some c)" "ext \<noteq> []" "n = k + length x + length y"
  shows "basename_ext_scan isSep start path ext (k + length x) False (ext_idx ext y) (int n) (ext_end ext n y) =
    basename_ext_scan isSep start path ext k False (ext_idx ext (x @ y)) (int n) (ext_end ext n (x @ y))"
  using assms
proof (induction x arbitrary: y rule: rev_induct)
  case (snoc c x)
  have "charCodeAt path (int (k + length x)) = Some c" using snoc.prems(3) [of "length x"] by simp
  then have "basename_ext_scan isSep start path ext (Suc (k + length x)) False (ext_idx ext y) (int n) (ext_end ext n y) =
      basename_ext_scan isSep start path ext (k + length x) False (ext_idx ext (c # y)) (int n) (ext_end ext n (c # y))"
    using ext_scan_next [of start "k + length x" path c isSep ext n y] snoc.prems by simp
  also have "\<dots> = basename_ext_scan isSep start path ext k False (ext_idx ext (x @ c # y)) (int n) (ext_end ext n (x @ c # y))"
  proof (rule snoc.IH)
    show "charCodeAt path (int (k + i)) = Some (x ! i)" if "i < length x" for i
      using snoc.prems(3) [of i] that by (simp add: nth_append)
  qed (use snoc.prems in simp_all)
  finally show ?case by simp
qed simp

lemma ext_scan_ok:
  assumes "parts (\<lambda>c. isSep (Some c)) s d b t" "path = pre @ s" "length pre = start" "ext \<noteq> []"
  shows "basename_ext_scan isSep start path ext (length path) True (int (length ext) - 1) (-1) (-1) =
    (int (start + length d), ext_end ext (start + length d + length b) b,
     if b = [] then -1 else int (start + length d + length b))"
proof -
  define m n where "m = length pre + length d" and "n = m + length b"
  note nth = parts_nth [OF assms(1,2) m_def n_def]
  have len: "start \<le> m" "m \<le> n" "n \<le> length path" using assms by (simp_all add: m_def n_def parts_def)
  have init: "int (length ext) - 1 = ext_idx ext []" "-1 = ext_end ext n []"
    using assms(4) by (simp_all add: ext_idx_def ext_end_def)
  have 1: "basename_ext_scan isSep start path ext (length path) True (int (length ext) - 1) (-1) (-1) =
      basename_ext_scan isSep start path ext n True (int (length ext) - 1) (-1) (-1)"
    using ext_scan_seps [of start n "length path" isSep path] len nth(1) by auto
  show ?thesis
  proof (cases "b = []")
    case True
    then have "d = []" using assms(1) by (simp add: parts_def)
    then show ?thesis using True assms(3) init(2) unfolding 1 n_def m_def by (cases start) (simp_all add: ext_end_def assms(4))
  next
    case False
    then obtain x c where b: "b = x @ [c]" by (cases b rule: rev_cases) auto
    have nb: "\<forall>c \<in> set b. \<not> isSep (Some c)" using assms(1) by (simp add: parts_def)
    have n: "n = Suc (m + length x)" by (simp add: n_def b)
    have "basename_ext_scan isSep start path ext n True (int (length ext) - 1) (-1) (-1) =
        basename_ext_scan isSep start path ext (m + length x) False (ext_idx ext [c]) (int n) (ext_end ext n [c])"
      using ext_scan_next [of start "m + length x" path c isSep ext n "[]"] len(1) nb nth(3) [of "m + length x"] assms(4)
      unfolding init n by (simp add: n b)
    also have "\<dots> = basename_ext_scan isSep start path ext m False (ext_idx ext (x @ [c])) (int n) (ext_end ext n (x @ [c]))"
    proof (rule ext_scan_name)
      show "charCodeAt path (int (m + i)) = Some (x ! i)" if "i < length x" for i
        using nth(3) [of "m + i"] that by (simp add: n b nth_append)
    qed (use len nb b n assms(4) in simp_all)
    also have "\<dots> = (int m, ext_end ext n b, int n)"
    proof (cases "d = []")
      case True
      then show ?thesis using assms(3) b by (cases m) (simp_all add: m_def)
    next
      case d: False
      then have "m = Suc (m - 1)" "start \<le> m - 1" using assms(3) by (cases d; simp add: m_def)+
      then show ?thesis
        using nth(4) [OF d] b basename_ext_scan.simps(2) [of isSep start path ext "m - 1" False "ext_idx ext b" "int n" "ext_end ext n b"]
        by (simp add: Let_def)
    qed
    finally show ?thesis using 1 False assms(3) by (simp add: m_def n_def)
  qed
qed

section \<open>basename\<close>

definition base_without :: "js_string \<Rightarrow> js_string \<Rightarrow> js_string" where
  "base_without b ext = (if suffix ext b \<and> ext \<noteq> b then take (length b - length ext) b else b)"

lemma parts_slice:
  assumes "parts p s d b t" "path = pre @ s" "m = length pre + length d" "i \<le> length b"
  shows "js_slice path (int m) (int (m + i)) = take i b" "js_slice path (int m) (int (length path)) = b @ t"
proof -
  have path: "path = (pre @ d) @ b @ t" using assms(1,2) by (simp add: parts_def)
  have d: "drop m path = b @ t" unfolding path using assms(3) by simp
  show "js_slice path (int m) (int (m + i)) = take i b"
    unfolding js_slice_int d using assms(4) by simp
  show "js_slice path (int m) (int (length path)) = b @ t" unfolding js_slice_int d using assms(3) by (simp add: path)
qed

lemma basename_from_ok:
  assumes "parts (\<lambda>c. isSep (Some c)) s d b t" "path = pre @ s" "length pre = start"
  shows "basename_from isSep start path ext =
    (if ext = [] \<or> length path < length ext then b
     else if ext = path then []
     else if suffix b ext \<and> b \<noteq> ext then b @ t
     else base_without b ext)"
proof -
  define m where "m = length pre + length d"
  note sl = parts_slice [OF assms(1,2) m_def]
  have m: "start + length d = m" using assms(3) by (simp add: m_def)
  consider "ext = [] \<or> length path < length ext" | "ext \<noteq> []" "length ext \<le> length path" "ext = path"
    | "ext \<noteq> []" "length ext \<le> length path" "ext \<noteq> path" by linarith
  then show ?thesis
  proof cases
    case 1
    then have c: "\<not> (length ext > 0 \<and> length ext \<le> length path)" by auto
    have "basename_from isSep start path ext = b"
      unfolding basename_from_def if_not_P [OF c] Let_def basename_scan_ok [OF assms] m
      using sl(1) [of "length b"] by (cases "b = []") simp_all
    then show ?thesis using 1 by simp
  next
    case 2
    then show ?thesis by (simp add: basename_from_def)
  next
    case 3
    have c: "length ext > 0 \<and> length ext \<le> length path" "\<not> (length ext = length path \<and> ext = path)" using 3 by auto
    have r: "basename_from isSep start path ext =
        (let e = ext_end ext (m + length b) b in
         js_slice path (int m) (if int m = e then if b = [] then -1 else int (m + length b)
           else if e = -1 then int (length path) else e))"
      unfolding basename_from_def if_P [OF c(1)] if_not_P [OF c(2)] Let_def ext_scan_ok [OF assms 3(1)] m by simp
    consider "suffix ext b" "ext = b" | "suffix ext b" "ext \<noteq> b" | "\<not> suffix ext b" "suffix b ext"
      | "\<not> suffix ext b" "\<not> suffix b ext" by blast
    then show ?thesis
    proof cases
      case s: 1
      then have "ext_end ext (m + length b) b = int m" by (simp add: ext_end_def)
      then show ?thesis using r s 3 sl(1) [of "length b"] by (simp add: base_without_def)
    next
      case s: 2
      obtain z where b: "b = z @ ext" using s(1) by (auto simp: suffix_def)
      then have z: "z \<noteq> []" using s(2) by auto
      have e: "ext_end ext (m + length b) b = int (m + length z)" using s(1) by (simp add: ext_end_def b)
      have "\<not> suffix b ext" using z by (auto simp: b dest: suffix_length_le)
      moreover have "basename_from isSep start path ext = take (length z) b"
        unfolding r e Let_def using z sl(1) [of "length z"] by (simp add: b)
      ultimately show ?thesis using s 3 by (simp add: base_without_def b)
    next
      case s: 3
      then have e: "ext_end ext (m + length b) b = -1" by (simp add: ext_end_def)
      have "basename_from isSep start path ext = b @ t" unfolding r e Let_def using sl(2) [of 0] by (simp del: js_slice_int)
      moreover have "b \<noteq> ext" using s by auto
      ultimately show ?thesis using s 3 by simp
    next
      case s: 4
      then have e: "ext_end ext (m + length b) b = int (m + length b)" by (simp add: ext_end_def)
      have "b \<noteq> []" using s by auto
      then have "basename_from isSep start path ext = b" unfolding r e Let_def using sl(1) [of "length b"] by simp
      then show ?thesis using s 3 by (simp add: base_without_def)
    qed
  qed
qed

end
