(* ===== verification/Path_Posix_Components.thy ===== *)
theory Path_Posix_Components
  imports Path_Posix_Relative Path_Components
begin

text \<open>
  \<^verbatim>\<open>basename\<close>, \<^verbatim>\<open>dirname\<close>, \<^verbatim>\<open>extname\<close>, \<^verbatim>\<open>parse\<close> and \<^verbatim>\<open>format\<close> of the posix flavour, in terms of the
  parts of the path.
\<close>

section \<open>basename and extname\<close>

text \<open>
  C15. \<^verbatim>\<open>path.posix.basename(path, ext)\<close> on every input. Without an extension, or with one longer than
  the path, it is the last component of the path, what stands between the last slash that is not a
  trailing one and the trailing slashes. With the path itself as extension it is empty. An extension
  that is a proper end of the last component is removed. If the last component is a proper end of the
  extension, the trailing slashes stay in the result; otherwise the extension is ignored.
\<close>

theorem posix_basename_spec:
  "posix_basename path ext =
     (let b = last_component is_slash path in
      if ext = [] \<or> length path < length ext then b
      else if ext = path then []
      else if suffix b ext \<and> b \<noteq> ext then b @ trailing_seps is_slash path
      else base_without b ext)"
  unfolding posix_basename_def Let_def by (rule basename_from_ok [OF parts_split, where pre = "[]"]) simp_all

lemma posix_basename_plain: "posix_basename path [] = last_component is_slash path"
  unfolding posix_basename_def using basename_from_ok [OF parts_split, where pre = "[]"] by simp

lemma slice_drop:
  assumes "parts p s d b t" "path = pre @ s" "m = length pre + length d" "i \<le> length b"
  shows "js_slice path (int (m + i)) (int (m + length b)) = drop i b"
proof -
  have "drop (m + i) path = drop i (b @ t)" using assms(1-3) by (simp add: parts_def)
  then show ?thesis unfolding js_slice_int using assms(4) by simp
qed

lemma ext_of_slice:
  assumes "parts (\<lambda>c. isSep (Some c)) s d b t" "path = pre @ s" "k = length pre + length d" "b \<noteq> []"
  shows "(if no_extension (scanned (int k) k b) then []
          else js_slice path (e_startDot (scanned (int k) k b)) (e_end (scanned (int k) k b))) = ext_of b"
proof (cases "no_extension (scanned (int k) k b)")
  case True
  then show ?thesis using no_extension_scanned(1) [OF assms(4)] by simp
next
  case False
  note e = no_extension_scanned(2) [OF assms(4) False]
  have l: "js_lastIndexOf b CHAR_DOT < int (length b)" using js_lastIndexOf_bounds [of b CHAR_DOT] e by linarith
  have "int k + js_lastIndexOf b CHAR_DOT = int (k + nat (js_lastIndexOf b CHAR_DOT))" using e by simp
  then show ?thesis
    using False e l slice_drop [OF assms(1-3), of "nat (js_lastIndexOf b CHAR_DOT)"]
    by (simp add: scanned_def Let_def del: js_slice_int of_nat_add)
qed

lemma posix_extname_ok: "posix_extname path = ext_of (last_component is_slash path)"
proof -
  let ?d = "leading_part is_slash path" and ?b = "last_component is_slash path"
  have parts: "parts is_slash path ?d ?b (trailing_seps is_slash path)" by (rule parts_split)
  have scan: "extname_scan isPosixPathSeparator 0 path (length path) (scan_init 0) =
      (if ?b = [] then scan_init 0 else scanned (int (length ?d)) (length ?d) ?b)"
    using extname_scan_ok [OF parts, of path "[]" 0 0] by simp
  show ?thesis
  proof (cases "?b = []")
    case True
    then show ?thesis unfolding posix_extname_def scan Let_def by (simp add: no_extension_def scan_init_def ext_of_def)
  next
    case False
    show ?thesis unfolding posix_extname_def scan Let_def if_not_P [OF False]
      by (rule ext_of_slice [OF parts, where pre = "[]", OF _ _ False]) simp_all
  qed
qed

section \<open>dirname\<close>

lemma posix_dirname_scan_seps:
  assumes "k \<le> n" "0 < k" "\<And>j. k \<le> j \<Longrightarrow> j < n \<Longrightarrow> (charCodeAt path (int j) = Some CHAR_FORWARD_SLASH) = m"
  shows "posix_dirname_scan path n m = posix_dirname_scan path k m"
  using assms(1,3)
proof (induction n)
  case (Suc n)
  show ?case
  proof (cases "k = Suc n")
    case False
    then have "(charCodeAt path (int n) = Some CHAR_FORWARD_SLASH) = m" "0 < n" using Suc.prems assms(2) by simp_all
    then show ?thesis using Suc False by (cases m) simp_all
  qed simp
qed simp

lemma posix_dirname_scan_ok:
  assumes "parts is_slash path d b t"
  shows "posix_dirname_scan path (length path) True = (if length d \<le> 1 then -1 else int (length d - 1))"
proof -
  define m n where "m = length d" and "n = m + length b"
  note nth = parts_nth [OF assms, of path "[]" m n, unfolded isPosixPathSeparator_def]
  have path: "path = d @ b @ t" using assms by (simp add: parts_def)
  have len: "m \<le> n" "n \<le> length path" by (simp_all add: m_def n_def path)
  show ?thesis
  proof (cases "b = []")
    case True
    then have d: "d = []" using assms by (simp add: parts_def)
    have "posix_dirname_scan path (length path) True = -1"
    proof (cases "path = []")
      case False
      then have "posix_dirname_scan path (length path) True = posix_dirname_scan path 1 True"
        using nth(1) d True by (intro posix_dirname_scan_seps) (simp_all add: m_def n_def Suc_leI)
      then show ?thesis by simp
    qed simp
    then show ?thesis using d by simp
  next
    case False
    then obtain i where i: "n = Suc i" "m \<le> i" by (cases b) (auto simp: n_def)
    have "posix_dirname_scan path (length path) True = posix_dirname_scan path n True"
      using nth(1) len i by (intro posix_dirname_scan_seps) (simp_all add: m_def n_def)
    also have "\<dots> = (if i < 1 then -1 else posix_dirname_scan path i False)"
      using nth(2) [of i] i by (simp add: m_def n_def)
    also have "\<dots> = (if m \<le> 1 then -1 else int (m - 1))"
    proof (cases "m = 0")
      case True
      have "0 < i \<Longrightarrow> posix_dirname_scan path i False = posix_dirname_scan path 1 False"
        using nth(2) i True by (intro posix_dirname_scan_seps) (simp_all add: m_def n_def)
      then show ?thesis using True by (cases "i = 0") simp_all
    next
      case m0: False
      have "posix_dirname_scan path i False = posix_dirname_scan path m False"
        using nth(2) i m0 by (intro posix_dirname_scan_seps) (simp_all add: m_def n_def)
      moreover obtain l where l: "m = Suc l" using m0 by (cases m) auto
      have "m - 1 = l" "d \<noteq> []" using l by (auto simp: m_def)
      then have "charCodeAt path (int l) = Some CHAR_FORWARD_SLASH" using nth(4) by (simp add: m_def n_def del: charCodeAt_int)
      then have "posix_dirname_scan path m False = (if m \<le> 1 then -1 else int (m - 1))"
        unfolding l by (cases l) simp_all
      ultimately show ?thesis using i m0 by simp
    qed
    finally show ?thesis by (simp add: m_def)
  qed
qed

lemma posix_dirname_ok:
  assumes "parts is_slash path d b t"
  shows "posix_dirname path =
    (if d = [] then (if path \<noteq> [] \<and> b = [] then [CHAR_FORWARD_SLASH] else [CHAR_DOT])
     else if d = [CHAR_FORWARD_SLASH] \<or> d = [CHAR_FORWARD_SLASH, CHAR_FORWARD_SLASH] then d
     else butlast d)"
proof (cases "path = []")
  case True
  then show ?thesis using assms by (simp add: posix_dirname_def parts_def)
next
  case False
  have path: "path = d @ b @ t" and t: "\<forall>c \<in> set t. is_slash c" and b: "\<forall>c \<in> set b. \<not> is_slash c"
    and d: "d = [] \<or> b \<noteq> [] \<and> last d = CHAR_FORWARD_SLASH" using assms by (auto simp: parts_def is_slash_iff)
  note r = posix_dirname_def [of path, unfolded posix_dirname_scan_ok [OF assms] charCodeAt_hd [OF False] Let_def]
  consider "d = []" | "length d = 1" | "length d = 2" | "length d > 2" by (cases d; cases "tl d"; cases "tl (tl d)") auto
  then show ?thesis
  proof cases
    case 1
    then have "hd path = CHAR_FORWARD_SLASH \<longleftrightarrow> b = []" using False path t b by (cases b; cases t) (auto simp: is_slash_iff)
    then show ?thesis using r 1 False by simp
  next
    case 2
    then have "d = [CHAR_FORWARD_SLASH]" using d by (cases d) auto
    then show ?thesis using r False by (simp add: path)
  next
    case 3
    then obtain x where x: "d = [x, CHAR_FORWARD_SLASH]" using d by (cases d; cases "tl d") auto
    then show ?thesis using r False by (simp add: path) (simp add: js_slice_def slice_index_def)
  next
    case 4
    then have "d \<noteq> []" "js_slice path 0 (int (length d - 1)) = butlast d"
      using js_slice_0 [of path "length d - 1"] by (auto simp: path butlast_conv_take)
    then show ?thesis using r 4 False by (auto simp: path)
  qed
qed

lemma fold_push_seps:
  assumes "\<forall>c \<in> set t. p c"
  shows "fold (push_segment allow) (segments p [] (x @ t)) ss = fold (push_segment allow) (segments p [] x) ss"
  using assms
proof (induction t rule: rev_induct)
  case (snoc c t)
  have "segments p [] ((x @ t) @ c # []) = segments p [] (x @ t) @ segments p [] []"
    using snoc.prems by (intro segments_append_sep) simp
  then show ?case using snoc by (simp add: push_segment_def)
qed simp

lemma cd_dirname_basename:
  assumes "parts is_slash path d b t"
  shows "cd dir [posix_dirname path, b] = cd dir [path]"
proof -
  have path: "path = d @ b @ t" and t: "\<forall>c \<in> set t. is_slash c" and b: "\<forall>c \<in> set b. \<not> is_slash c"
    and d: "d = [] \<or> b \<noteq> [] \<and> last d = CHAR_FORWARD_SLASH" using assms by (auto simp: parts_def is_slash_iff)
  have bh: "b \<noteq> [] \<Longrightarrow> hd b \<noteq> CHAR_FORWARD_SLASH" using b by (cases b) (auto simp: is_slash_iff)
  have dot: "cd dir ([CHAR_DOT] # ps) = cd dir ps" for dir ps by (simp add: is_slash_iff push_segment_def char_defs)
  have seps: "posix_segments False s = []" if "\<forall>c \<in> set s. is_slash c" for s
    using fold_push_seps [OF that, of False "[]" "[]"] by (simp add: normal_segments_def push_segment_def)
  consider "path = []" | "path \<noteq> []" "d = []" "b = []" | "path \<noteq> []" "d = []" "b \<noteq> []" | "d \<noteq> []" by blast
  then show ?thesis
  proof cases
    case 1
    then have "posix_dirname path = [CHAR_DOT]" "b = []" using posix_dirname_ok [OF assms] by (simp_all add: path)
    then have "cd dir [posix_dirname path, b] = cd dir [[]]" by (simp only: dot)
    then show ?thesis unfolding 1 .
  next
    case 2
    then have "posix_dirname path = [CHAR_FORWARD_SLASH]" using posix_dirname_ok [OF assms] by simp
    moreover have "hd path = CHAR_FORWARD_SLASH" using 2 path t by (cases t) (auto simp: is_slash_iff)
    ultimately show ?thesis using 2 seps [of "[CHAR_FORWARD_SLASH]"] seps [of t] t by (simp add: path is_slash_iff)
  next
    case 3
    then have "posix_dirname path = [CHAR_DOT]" using posix_dirname_ok [OF assms] by simp
    then have "cd dir [posix_dirname path, b] = cd dir [b]" by (simp only: dot)
    then show ?thesis using 3 bh fold_push_seps [OF t, of False b dir] by (simp add: path)
  next
    case 4
    then obtain d' where d': "d = d' @ [CHAR_FORWARD_SLASH]" "b \<noteq> []" using d by (cases d rule: rev_cases) auto
    have p: "path = d' @ CHAR_FORWARD_SLASH # b @ t" by (simp add: path d')
    have sep: "posix_segments False path = fold (push_segment False) (segments is_slash [] b) (posix_segments False d')"
      "fold (push_segment False) (segments is_slash [] path) dir =
        fold (push_segment False) (segments is_slash [] b) (fold (push_segment False) (segments is_slash [] d') dir)"
      using fold_push_seps [OF t, of False b] segments_append_sep [of is_slash CHAR_FORWARD_SLASH "[]" d' "b @ t"]
      unfolding p posix_segments_slash by (simp_all add: is_slash_iff)
    show ?thesis
    proof (cases "\<forall>c \<in> set d'. is_slash c \<and> length d' \<le> 1")
      case True
      then have dn: "posix_dirname path = d" using posix_dirname_ok [OF assms] d' by (cases d') (auto simp: is_slash_iff)
      have "hd d = CHAR_FORWARD_SLASH" "\<forall>c \<in> set d. is_slash c" using True d' by (cases d'; auto simp: is_slash_iff)+
      moreover have "hd path = CHAR_FORWARD_SLASH" "path \<noteq> []" using \<open>hd d = CHAR_FORWARD_SLASH\<close> 4 by (simp_all add: path)
      ultimately show ?thesis using dn 4 d'(2) bh sep seps [of d] seps [of d'] True by simp
    next
      case False
      then have ne: "d' \<noteq> []" by auto
      then have dn: "posix_dirname path = d'" using posix_dirname_ok [OF assms] d' False by (auto simp: is_slash_iff)
      have "hd path = hd d'" using ne by (simp add: p)
      then show ?thesis using dn ne d'(2) bh sep by (simp add: path)
    qed
  qed
qed

text \<open>
  C16. \<^verbatim>\<open>dirname\<close> and \<^verbatim>\<open>basename\<close> take a path apart without losing anything: with an absolute working
  directory, \<^verbatim>\<open>resolve(dirname(path), basename(path))\<close> is \<^verbatim>\<open>resolve(path)\<close>.
\<close>

theorem posix_resolve_dirname_basename:
  assumes "cwd \<noteq> []" "hd cwd = CHAR_FORWARD_SLASH"
  shows "posix_resolve cwd [posix_dirname path, posix_basename path []] = posix_resolve cwd [path]"
  unfolding posix_resolve_cd [OF assms] posix_basename_plain cd_dirname_basename [OF parts_split] ..

theorem posix_resolve_dirname_basename_witness:
  "posix_dirname (str ''src/lib/mod.ts/'') = str ''src/lib'' \<and> posix_basename (str ''src/lib/mod.ts/'') [] = str ''mod.ts'' \<and>
   posix_resolve (str ''/w'') [str ''src/lib'', str ''mod.ts''] = posix_resolve (str ''/w'') [str ''src/lib/mod.ts/'']"
proof -
  have c: "str ''/w'' \<noteq> []" "hd (str ''/w'') = CHAR_FORWARD_SLASH" by code_simp+
  have d: "posix_dirname (str ''src/lib/mod.ts/'') = str ''src/lib''" by code_simp
  have b: "posix_basename (str ''src/lib/mod.ts/'') [] = str ''mod.ts''" by code_simp
  show ?thesis using posix_resolve_dirname_basename [OF c, of "str ''src/lib/mod.ts/''"] unfolding d b by blast
qed

section \<open>parse and format\<close>

text \<open>
  The scan of \<^verbatim>\<open>parse\<close> leaves out the leading slash of an absolute path but keeps \<^verbatim>\<open>startPart\<close> at 0, so
  its test for \<^verbatim>\<open>..\<close> fails for a component right below the root.
\<close>

lemma no_extension_root:
  assumes "b \<noteq> []"
  shows "no_extension (scanned 0 1 b) \<longleftrightarrow> js_lastIndexOf b CHAR_DOT \<le> 0"
  using assms js_lastIndexOf_bounds [of b CHAR_DOT] by (auto simp: no_extension_def scanned_def Let_def)

definition parse_ext :: "bool \<Rightarrow> js_string \<Rightarrow> js_string \<Rightarrow> js_string" where
  "parse_ext rooted d b = (if rooted \<and> d = [] \<and> b = [CHAR_DOT, CHAR_DOT] then [CHAR_DOT] else ext_of b)"

lemma posix_parse_ok:
  assumes "path \<noteq> []" and abs: "rooted = (hd path = CHAR_FORWARD_SLASH)"
    and parts: "parts is_slash (if rooted then tl path else path) d b t"
  shows "pp_root (posix_parse path) = (if rooted then [CHAR_FORWARD_SLASH] else [])"
    "pp_dir (posix_parse path) = (if rooted then CHAR_FORWARD_SLASH # butlast d else butlast d)"
    "pp_base (posix_parse path) = b"
    "pp_name (posix_parse path) @ pp_ext (posix_parse path) = b"
    "pp_ext (posix_parse path) = parse_ext rooted d b"
proof -
  define pre where "pre = (if rooted then [CHAR_FORWARD_SLASH] else [])"
  let ?start = "if rooted then 1 else 0 :: nat"
  have path: "path = pre @ (if rooted then tl path else path)" using assms(1) abs by (cases path) (simp_all add: pre_def)
  have start: "length pre = ?start" by (simp add: pre_def)
  define k where "k = ?start + length d"
  define sp where "sp = (if d = [] then 0 else int k)"
  have scan: "extname_scan isPosixPathSeparator ?start path (length path) (scan_init 0) =
      (if b = [] then scan_init 0 else scanned sp k b)"
    using extname_scan_ok [OF parts path start, of 0] by (simp add: k_def sp_def)
  have path': "path = (pre @ d) @ b @ t" using parts path by (simp add: parts_def)
  have k: "k = length (pre @ d)" "k = length pre + length d" by (simp_all add: k_def start)
  have base: "js_slice path (int k) (int (k + length b)) = b" using parts_slice(1) [OF parts path k(2), of "length b"] by simp
  have dir: "js_slice path 0 (sp - 1) = pre @ butlast d" if "d \<noteq> []"
  proof -
    have "sp - 1 = int (k - 1)" using that by (cases d) (simp_all add: sp_def k_def)
    then have "js_slice path 0 (sp - 1) = take (k - 1) path" using js_slice_0 by metis
    also have "\<dots> = pre @ butlast d" using that by (cases d rule: rev_cases) (simp_all add: path' k(1))
    finally show ?thesis .
  qed
  have c0: "(charCodeAt path 0 = Some CHAR_FORWARD_SLASH) = rooted" by (simp add: assms(1) charCodeAt_hd abs)
  have sp: "sp > 0 \<longleftrightarrow> d \<noteq> []" "(if sp = 0 \<and> rooted then 1 else sp) = int k"
    unfolding sp_def k_def by (cases "d = []"; cases rooted; simp)+
  have "\<exists>name. posix_parse path =
      \<lparr>pp_root = pre, pp_dir = pre @ butlast d, pp_base = b, pp_ext = parse_ext rooted d b, pp_name = name\<rparr> \<and>
      name @ parse_ext rooted d b = b"
  proof (cases "b = []")
    case True
    then have "d = []" using parts by (simp add: parts_def)
    then show ?thesis using assms(1) True
      unfolding posix_parse_def c0 Let_def scan by (simp add: no_extension_def scan_init_def parse_ext_def ext_of_def pre_def)
  next
    case b: False
    let ?l = "js_lastIndexOf b CHAR_DOT"
    have l: "?l = -1 \<or> 0 \<le> ?l \<and> ?l < int (length b)" by (rule js_lastIndexOf_bounds)
    have e: "e_startPart (scanned sp k b) = sp" "e_end (scanned sp k b) = int (k + length b)" "int (k + length b) \<noteq> -1"
      by (simp_all add: scanned_def Let_def)
    have ext: "parse_ext rooted d b = (if no_extension (scanned sp k b) then [] else drop (nat ?l) b)"
    proof (cases "d = [] \<and> rooted")
      case True
      then have "sp = 0" "k = 1" by (simp_all add: sp_def k_def)
      moreover have "b = [CHAR_DOT, CHAR_DOT] \<Longrightarrow> ?l = 1" by (simp add: js_lastIndexOf_Cons)
      ultimately show ?thesis using True no_extension_root [OF b]
        by (cases "b = [CHAR_DOT, CHAR_DOT]") (simp_all add: parse_ext_def ext_of_def Let_def)
    next
      case False
      then have "sp = int k" by (auto simp: sp_def k_def)
      then show ?thesis using False no_extension_scanned [OF b, of k] by (auto simp: parse_ext_def)
    qed
    show ?thesis
    proof (cases "no_extension (scanned sp k b)")
      case True
      have "posix_parse path = \<lparr>pp_root = pre, pp_dir = pre @ butlast d, pp_base = b, pp_ext = [], pp_name = b\<rparr>"
        unfolding posix_parse_def c0 Let_def scan if_not_P [OF b] if_P [OF True] e sp
        using assms(1) dir base e(3) by (simp add: pre_def del: js_slice_int of_nat_add)
      then show ?thesis using ext True by simp
    next
      case False
      have l0: "0 \<le> ?l" using False l by (auto simp: no_extension_def scanned_def Let_def)
      then have sd: "e_startDot (scanned sp k b) = int (k + nat ?l)" by (simp add: scanned_def Let_def)
      have sl: "js_slice path (int k) (int (k + nat ?l)) = take (nat ?l) b"
          "js_slice path (int (k + nat ?l)) (int (k + length b)) = drop (nat ?l) b"
        using l l0 parts_slice(1) [OF parts path k(2), of "nat ?l"] slice_drop [OF parts path k(2), of "nat ?l"] by simp_all
      have "posix_parse path = \<lparr>pp_root = pre, pp_dir = pre @ butlast d, pp_base = b,
          pp_ext = drop (nat ?l) b, pp_name = take (nat ?l) b\<rparr>"
        unfolding posix_parse_def c0 Let_def scan if_not_P [OF b] if_not_P [OF False] e sp sd
        using assms(1) dir base sl by (simp add: pre_def del: js_slice_int of_nat_add)
      then show ?thesis using ext False by simp
    qed
  qed
  then show "pp_root (posix_parse path) = (if rooted then [CHAR_FORWARD_SLASH] else [])"
    "pp_dir (posix_parse path) = (if rooted then CHAR_FORWARD_SLASH # butlast d else butlast d)"
    "pp_base (posix_parse path) = b"
    "pp_name (posix_parse path) @ pp_ext (posix_parse path) = b"
    "pp_ext (posix_parse path) = parse_ext rooted d b"
    by (auto simp: pre_def)
qed

lemma parts_below_root:
  assumes "parts is_slash (tl path) d b t" "path \<noteq> []" "hd path = CHAR_FORWARD_SLASH"
  shows "last_component is_slash path = b"
    "leading_part is_slash path = (if b = [] then [] else CHAR_FORWARD_SLASH # d)"
    "trailing_seps is_slash path = (if b = [] then CHAR_FORWARD_SLASH # t else t)"
proof -
  have "parts is_slash path (if b = [] then [] else CHAR_FORWARD_SLASH # d) b (if b = [] then CHAR_FORWARD_SLASH # t else t)"
    using assms by (cases path) (auto simp: parts_def is_slash_iff)
  then show "last_component is_slash path = b"
    "leading_part is_slash path = (if b = [] then [] else CHAR_FORWARD_SLASH # d)"
    "trailing_seps is_slash path = (if b = [] then CHAR_FORWARD_SLASH # t else t)"
    by (rule parts_unique)+
qed

lemma posix_parse_empty: "posix_parse [] = \<lparr>pp_root = [], pp_dir = [], pp_base = [], pp_ext = [], pp_name = []\<rparr>"
  by (simp add: posix_parse_def)

text \<open>
  C17. \<^verbatim>\<open>path.posix.parse\<close> splits the last component: its \<^verbatim>\<open>base\<close> is \<^verbatim>\<open>basename(path)\<close>, and \<^verbatim>\<open>base\<close> is \<^verbatim>\<open>name\<close>
  followed by \<^verbatim>\<open>ext\<close>, on every path.
\<close>

theorem posix_parse_base:
  "pp_base (posix_parse path) = posix_basename path [] \<and>
   pp_name (posix_parse path) @ pp_ext (posix_parse path) = posix_basename path []"
proof (cases "path = []")
  case True
  then show ?thesis by (simp add: posix_parse_empty posix_basename_plain last_component_def)
next
  case False
  let ?s = "if hd path = CHAR_FORWARD_SLASH then tl path else path"
  note parse = posix_parse_ok [OF False refl parts_split]
  have "last_component is_slash path = last_component is_slash ?s"
    using parts_below_root(1) [OF parts_split False] by simp
  then show ?thesis using parse(3,4) by (simp add: posix_basename_plain)
qed

lemma all_slashes: "\<forall>c \<in> set t. is_slash c \<Longrightarrow> t = replicate (length t) CHAR_FORWARD_SLASH"
  by (induction t) (auto simp: is_slash_iff)

lemma parts_root_dotdot:
  "parts is_slash ([CHAR_DOT, CHAR_DOT] @ replicate k CHAR_FORWARD_SLASH) [] [CHAR_DOT, CHAR_DOT] (replicate k CHAR_FORWARD_SLASH)"
  by (simp add: parts_def is_slash_iff) (simp add: char_defs)

lemma root_dotdot_iff:
  assumes "path \<noteq> []" "rooted = (hd path = CHAR_FORWARD_SLASH)" "parts is_slash (if rooted then tl path else path) d b t"
  shows "rooted \<and> d = [] \<and> b = [CHAR_DOT, CHAR_DOT] \<longleftrightarrow>
    (\<exists>k. path = [CHAR_FORWARD_SLASH, CHAR_DOT, CHAR_DOT] @ replicate k CHAR_FORWARD_SLASH)"
proof
  assume l: "rooted \<and> d = [] \<and> b = [CHAR_DOT, CHAR_DOT]"
  then have "tl path = [CHAR_DOT, CHAR_DOT] @ t" "t = replicate (length t) CHAR_FORWARD_SLASH"
    using assms(3) all_slashes by (auto simp: parts_def)
  then have "path = [CHAR_FORWARD_SLASH, CHAR_DOT, CHAR_DOT] @ replicate (length t) CHAR_FORWARD_SLASH"
    using assms(1,2) l by (cases path) auto
  then show "\<exists>k. path = [CHAR_FORWARD_SLASH, CHAR_DOT, CHAR_DOT] @ replicate k CHAR_FORWARD_SLASH" ..
next
  assume "\<exists>k. path = [CHAR_FORWARD_SLASH, CHAR_DOT, CHAR_DOT] @ replicate k CHAR_FORWARD_SLASH"
  then obtain k where k: "path = [CHAR_FORWARD_SLASH, CHAR_DOT, CHAR_DOT] @ replicate k CHAR_FORWARD_SLASH" ..
  then have r: "rooted" "tl path = [CHAR_DOT, CHAR_DOT] @ replicate k CHAR_FORWARD_SLASH" using assms(2) by simp_all
  then show "rooted \<and> d = [] \<and> b = [CHAR_DOT, CHAR_DOT]"
    using parts_unique [OF assms(3)] parts_unique [OF parts_root_dotdot [of k]] by simp
qed

text \<open>
  C18. \<^verbatim>\<open>parse\<close> and \<^verbatim>\<open>extname\<close> of the posix flavour agree on the extension of every path, with one
  exception: the path \<^verbatim>\<open>/..\<close>, possibly with slashes at its end. There \<^verbatim>\<open>extname\<close> returns the empty
  string, as for every other \<^verbatim>\<open>..\<close>, and \<^verbatim>\<open>parse\<close> returns \<^verbatim>\<open>.\<close> as the extension.
\<close>

theorem posix_parse_ext:
  "pp_ext (posix_parse path) =
     (if \<exists>k. path = [CHAR_FORWARD_SLASH, CHAR_DOT, CHAR_DOT] @ replicate k CHAR_FORWARD_SLASH
      then [CHAR_DOT] else posix_extname path) \<and>
   posix_extname ([CHAR_FORWARD_SLASH, CHAR_DOT, CHAR_DOT] @ replicate k CHAR_FORWARD_SLASH) = []"
proof
  have "last_component is_slash ([CHAR_FORWARD_SLASH, CHAR_DOT, CHAR_DOT] @ replicate k CHAR_FORWARD_SLASH) = [CHAR_DOT, CHAR_DOT]"
    using parts_below_root(1) [of "[CHAR_FORWARD_SLASH, CHAR_DOT, CHAR_DOT] @ replicate k CHAR_FORWARD_SLASH"]
      parts_root_dotdot [of k] by simp
  then show "posix_extname ([CHAR_FORWARD_SLASH, CHAR_DOT, CHAR_DOT] @ replicate k CHAR_FORWARD_SLASH) = []"
    by (simp add: posix_extname_ok ext_of_def)
  show "pp_ext (posix_parse path) =
     (if \<exists>k. path = [CHAR_FORWARD_SLASH, CHAR_DOT, CHAR_DOT] @ replicate k CHAR_FORWARD_SLASH
      then [CHAR_DOT] else posix_extname path)"
  proof (cases "path = []")
    case True
    then show ?thesis by (simp add: posix_parse_empty posix_extname_ok ext_of_def last_component_def)
  next
    case False
    let ?s = "if hd path = CHAR_FORWARD_SLASH then tl path else path"
    have "last_component is_slash path = last_component is_slash ?s"
      using parts_below_root(1) [OF parts_split False] by simp
    then show ?thesis
      unfolding posix_parse_ok(5) [OF False refl parts_split] parse_ext_def posix_extname_ok
        root_dotdot_iff [OF False refl parts_split] by simp
  qed
qed



end
