(* ===== verification/Path_Win32.thy ===== *)
theory Path_Win32
  imports Path_Posix
begin

text \<open>
  The win32 flavour of \<^verbatim>\<open>node:path\<close> (\<^verbatim>\<open>ext/node/polyfills/path/_win32.ts\<close>). The working directory is an
  argument \<open>cwd\<close>; \<^verbatim>\<open>String.prototype.toLowerCase\<close>, which follows the Unicode case tables, is an argument
  \<open>toLowerCase\<close>. The loops over the last component are those of the posix flavour, with the index the
  scan stops at and the separator test as arguments.
\<close>

section \<open>Roots\<close>

text \<open>\<^verbatim>\<open>for (; j < len; ++j) if (isPathSeparator(path.charCodeAt(j)) === wanted) break;\<close>\<close>

function skip_until :: "bool \<Rightarrow> js_string \<Rightarrow> nat \<Rightarrow> nat" where
  "skip_until wanted path j =
     (if j < length path
      then (if isPathSeparator (charCodeAt path (int j)) = wanted then j else skip_until wanted path (Suc j))
      else j)"
  by pat_completeness auto
termination by (relation "measure (\<lambda>(w, p, j). length p - j)") auto

declare skip_until.simps [simp del]

text \<open>
  What follows two leading separators: nothing that is a UNC root, only a UNC root (the index where the
  share starts), or a UNC root with leftovers (where the share starts and where it ends).
\<close>

datatype unc_root = Unc_none | Unc_only js_string nat | Unc_leftovers js_string nat nat

definition match_unc :: "js_string \<Rightarrow> unc_root" where
  "match_unc path =
     (let len = length path; last = 2; j = skip_until True path 2 in
      if j < len \<and> j \<noteq> last
      then
        let firstPart = js_slice path (int last) (int j); last = j; j = skip_until False path j in
        if j < len \<and> j \<noteq> last
        then
          let last = j; j = skip_until True path j in
          if j = len then Unc_only firstPart last
          else if j \<noteq> last then Unc_leftovers firstPart last j
          else Unc_none
        else Unc_none
      else Unc_none)"

abbreviation backslash :: js_string where "backslash \<equiv> [CHAR_BACKWARD_SLASH]"

definition unc_device :: "js_string \<Rightarrow> js_string \<Rightarrow> js_string" where
  "unc_device firstPart share = backslash @ backslash @ firstPart @ backslash @ share"

section \<open>resolve\<close>

text \<open>The device, the end of the root and whether the path is absolute.\<close>

definition resolve_root :: "js_string \<Rightarrow> js_string \<times> nat \<times> bool" where
  "resolve_root path =
     (let len = length path; code = charCodeAt path 0 in
      if len > 1
      then
        (if isPathSeparator code
         then
           (if isPathSeparator (charCodeAt path 1)
            then (case match_unc path of
                    Unc_none \<Rightarrow> ([], 0, True)
                  | Unc_only firstPart share \<Rightarrow> (unc_device firstPart (js_slice_from path (int share)), len, True)
                  | Unc_leftovers firstPart share j \<Rightarrow> (unc_device firstPart (js_slice path (int share) (int j)), j, True))
            else ([], 1, True))
         else if isWindowsDeviceRoot code
         then
           (if charCodeAt path 1 = Some CHAR_COLON
            then (if len > 2 \<and> isPathSeparator (charCodeAt path 2) then (js_slice path 0 2, 3, True)
                  else (js_slice path 0 2, 2, False))
            else ([], 0, False))
         else ([], 0, False))
      else if isPathSeparator code then ([], 1, True)
      else ([], 0, False))"

record resolve_state =
  r_device :: js_string
  r_tail :: js_string
  r_absolute :: bool

definition resolve_step :: "(js_string \<Rightarrow> js_string) \<Rightarrow> js_string \<Rightarrow> resolve_state \<Rightarrow> resolve_state" where
  "resolve_step toLowerCase path st =
     (if length path = 0 then st
      else
        let (device, rootEnd, isAbsolute) = resolve_root path in
        if length device > 0 \<and> length (r_device st) > 0 \<and> toLowerCase device \<noteq> toLowerCase (r_device st)
        then st
        else
          let st = (if length (r_device st) = 0 \<and> length device > 0 then st\<lparr>r_device := device\<rparr> else st)
          in if \<not> r_absolute st
             then st\<lparr>r_tail := js_slice_from path (int rootEnd) @ backslash @ r_tail st, r_absolute := isAbsolute\<rparr>
             else st)"

definition resolve_cwd :: "(js_string \<Rightarrow> js_string) \<Rightarrow> js_string \<Rightarrow> js_string \<Rightarrow> js_string" where
  "resolve_cwd toLowerCase cwd resolvedDevice =
     (if resolvedDevice = [] then cwd
      else if toLowerCase (js_slice cwd 0 3) \<noteq> toLowerCase resolvedDevice @ backslash
      then resolvedDevice @ backslash
      else cwd)"

fun win32_resolve_loop ::
    "(js_string \<Rightarrow> js_string) \<Rightarrow> js_string \<Rightarrow> js_string list \<Rightarrow> resolve_state \<Rightarrow> resolve_state" where
  \<comment> \<open>the segments from the last to the first; then index -1, the working directory\<close>
  "win32_resolve_loop toLowerCase cwd [] st =
     resolve_step toLowerCase (resolve_cwd toLowerCase cwd (r_device st)) st"
| "win32_resolve_loop toLowerCase cwd (path # paths) st =
     (let st = resolve_step toLowerCase path st in
      if r_absolute st \<and> length (r_device st) > 0 then st
      else win32_resolve_loop toLowerCase cwd paths st)"

definition win32_resolve :: "(js_string \<Rightarrow> js_string) \<Rightarrow> js_string \<Rightarrow> js_string list \<Rightarrow> js_string" where
  "win32_resolve toLowerCase cwd pathSegments =
     (let st = win32_resolve_loop toLowerCase cwd (rev pathSegments)
                 \<lparr>r_device = [], r_tail = [], r_absolute = False\<rparr>;
          tail = normalizeString (r_tail st) (\<not> r_absolute st) CHAR_BACKWARD_SLASH isPathSeparator;
          r = r_device st @ (if r_absolute st then backslash else []) @ tail
      in if r = [] then [CHAR_DOT] else r)"

section \<open>normalize, isAbsolute, join\<close>

text \<open>The root of \<^verbatim>\<open>normalize\<close>: an early return, or the device if there is one.\<close>

datatype normal_root = Root_return js_string | Root "js_string option" nat bool

definition normalize_root :: "js_string \<Rightarrow> normal_root" where
  "normalize_root path =
     (let len = length path; code = charCodeAt path 0 in
      if len > 1
      then
        (if isPathSeparator code
         then
           (if isPathSeparator (charCodeAt path 1)
            then (case match_unc path of
                    Unc_none \<Rightarrow> Root None 0 True
                  | Unc_only firstPart share \<Rightarrow>
                      Root_return (unc_device firstPart (js_slice_from path (int share)) @ backslash)
                  | Unc_leftovers firstPart share j \<Rightarrow>
                      Root (Some (unc_device firstPart (js_slice path (int share) (int j)))) j True)
            else Root None 1 True)
         else if isWindowsDeviceRoot code
         then
           (if charCodeAt path 1 = Some CHAR_COLON
            then (if len > 2 \<and> isPathSeparator (charCodeAt path 2) then Root (Some (js_slice path 0 2)) 3 True
                  else Root (Some (js_slice path 0 2)) 2 False)
            else Root None 0 False)
         else Root None 0 False)
      else if isPathSeparator code then Root_return backslash
      else Root None 0 False)"

definition win32_normalize :: "js_string \<Rightarrow> js_string" where
  "win32_normalize path =
     (let len = length path in
      if len = 0 then [CHAR_DOT]
      else
        case normalize_root path of
          Root_return r \<Rightarrow> r
        | Root device rootEnd isAbsolute \<Rightarrow>
            (let tail = (if rootEnd < len
                         then normalizeString (js_slice_from path (int rootEnd)) (\<not> isAbsolute) CHAR_BACKWARD_SLASH isPathSeparator
                         else []);
                 tail = (if length tail = 0 \<and> \<not> isAbsolute then [CHAR_DOT] else tail);
                 tail = (if length tail > 0 \<and> isPathSeparator (charCodeAt path (int len - 1)) then tail @ backslash else tail)
             in case device of
                  None \<Rightarrow>
                    if isAbsolute then (if length tail > 0 then backslash @ tail else backslash)
                    else if length tail > 0 then tail else []
                | Some d \<Rightarrow>
                    if isAbsolute then (if length tail > 0 then d @ backslash @ tail else d @ backslash)
                    else if length tail > 0 then d @ tail else d))"

definition win32_isAbsolute :: "js_string \<Rightarrow> bool" where
  "win32_isAbsolute path =
     (let len = length path in
      if len = 0 then False
      else
        let code = charCodeAt path 0 in
        if isPathSeparator code then True
        else isWindowsDeviceRoot code \<and> len > 2 \<and> charCodeAt path 1 = Some CHAR_COLON \<and>
             isPathSeparator (charCodeAt path 2))"

primrec win32_join_loop :: "js_string list \<Rightarrow> (js_string \<times> js_string) option \<Rightarrow> (js_string \<times> js_string) option" where
  \<comment> \<open>\<open>(joined, firstPart)\<close>, which are set together\<close>
  "win32_join_loop [] joined = joined"
| "win32_join_loop (path # paths) joined =
     win32_join_loop paths
       (if length path > 0
        then (case joined of None \<Rightarrow> Some (path, path) | Some (j, firstPart) \<Rightarrow> Some (j @ backslash @ path, firstPart))
        else joined)"

definition win32_join :: "js_string list \<Rightarrow> js_string" where
  "win32_join paths =
     (case win32_join_loop paths None of
        None \<Rightarrow> [CHAR_DOT]
      | Some (joined, firstPart) \<Rightarrow>
          (let firstLen = length firstPart;
               sep = (\<lambda>i. isPathSeparator (charCodeAt firstPart i));
               (needsReplace, slashCount) =
                 (if sep 0
                  then (if firstLen > 1 \<and> sep 1
                        then (if firstLen > 2 then (if sep 2 then (True, 3) else (False, 2)) else (True, 2))
                        else (True, 1))
                  else (True, 0));
               joined =
                 (if needsReplace
                  then
                    let slashCount = skip_until False joined slashCount in
                    if slashCount \<ge> 2 then backslash @ js_slice_from joined (int slashCount) else joined
                  else joined)
           in win32_normalize joined))"

section \<open>relative and toNamespacedPath\<close>

primrec trim_trailing :: "js_string \<Rightarrow> nat \<Rightarrow> nat \<Rightarrow> nat" where
  \<comment> \<open>the loop over \<open>fromEnd\<close>, which stays above \<open>start\<close>\<close>
  "trim_trailing path start 0 = 0"
| "trim_trailing path start (Suc i) =
     (if i > start \<and> charCodeAt path (int i) = Some CHAR_BACKWARD_SLASH then trim_trailing path start i else Suc i)"

datatype win32_scan = Scan_return js_string | Scan_break nat int

function win32_relative_scan ::
    "js_string \<Rightarrow> js_string \<Rightarrow> js_string \<Rightarrow> nat \<Rightarrow> nat \<Rightarrow> nat \<Rightarrow> nat \<Rightarrow> nat \<Rightarrow> nat \<Rightarrow> int \<Rightarrow> win32_scan" where
  "win32_relative_scan from to toOrig fromStart toStart fromLen toLen len i lastCommonSep =
     (if i < len
      then
        let fromCode = charCodeAt from (int (fromStart + i)); toCode = charCodeAt to (int (toStart + i)) in
        if fromCode \<noteq> toCode then Scan_break i lastCommonSep
        else win32_relative_scan from to toOrig fromStart toStart fromLen toLen len (Suc i)
               (if fromCode = Some CHAR_BACKWARD_SLASH then int i else lastCommonSep)
      else if toLen > len \<and> charCodeAt to (int (toStart + i)) = Some CHAR_BACKWARD_SLASH
      then Scan_return (js_slice_from toOrig (int (toStart + i + 1)))
      else if toLen > len \<and> i = 2
      then Scan_return (js_slice_from toOrig (int (toStart + i)))
      else if fromLen > len
      then (if charCodeAt from (int (fromStart + i)) = Some CHAR_BACKWARD_SLASH then Scan_break i (int i)
            else if i = 2 then Scan_break i 3
            else Scan_break i lastCommonSep)
      else Scan_break i lastCommonSep)"
  by pat_completeness auto
termination by (relation "measure (\<lambda>(f, t, o', fs, ts, fl, tl, n, i, l). n - i)") auto

declare win32_relative_scan.simps [simp del]

definition win32_relative :: "(js_string \<Rightarrow> js_string) \<Rightarrow> js_string \<Rightarrow> js_string \<Rightarrow> js_string \<Rightarrow> js_string" where
  "win32_relative toLowerCase cwd from to =
     (if from = to then []
      else
        let fromOrig = win32_resolve toLowerCase cwd [from]; toOrig = win32_resolve toLowerCase cwd [to] in
        if fromOrig = toOrig then []
        else
          let from = toLowerCase fromOrig; to = toLowerCase toOrig in
          if from = to then []
          else
            let fromStart = trim_leading CHAR_BACKWARD_SLASH from 0;
                fromEnd = trim_trailing from fromStart (length from);
                fromLen = fromEnd - fromStart;
                toStart = trim_leading CHAR_BACKWARD_SLASH to 0;
                toEnd = trim_trailing to toStart (length to);
                toLen = toEnd - toStart;
                len = (if fromLen < toLen then fromLen else toLen)
            in case win32_relative_scan from to toOrig fromStart toStart fromLen toLen len 0 (-1) of
                 Scan_return r \<Rightarrow> r
               | Scan_break i lastCommonSep \<Rightarrow>
                   (if i \<noteq> len \<and> lastCommonSep = -1 then toOrig
                    else
                      let lastCommonSep = (if lastCommonSep = -1 then 0 else lastCommonSep);
                          out = climb CHAR_BACKWARD_SLASH from fromEnd (nat (int fromStart + lastCommonSep + 1)) []
                      in if length out > 0 then out @ js_slice toOrig (int toStart + lastCommonSep) (int toEnd)
                         else
                           let toStart = int toStart + lastCommonSep;
                               toStart = (if charCodeAt toOrig toStart = Some CHAR_BACKWARD_SLASH then toStart + 1 else toStart)
                           in js_slice toOrig toStart (int toEnd)))"

definition win32_toNamespacedPath :: "(js_string \<Rightarrow> js_string) \<Rightarrow> js_string \<Rightarrow> js_string \<Rightarrow> js_string" where
  "win32_toNamespacedPath toLowerCase cwd path =
     (if length path = 0 then []
      else
        let resolvedPath = win32_resolve toLowerCase cwd [path]; code = charCodeAt resolvedPath in
        if length resolvedPath \<ge> 3
        then
          (if code 0 = Some CHAR_BACKWARD_SLASH
           then (if code 1 = Some CHAR_BACKWARD_SLASH \<and> code 2 \<noteq> Some CHAR_QUESTION_MARK \<and> code 2 \<noteq> Some CHAR_DOT
                 then str [CHR 0x5C, CHR 0x5C, CHR ''?'', CHR 0x5C, CHR ''U'', CHR ''N'', CHR ''C'', CHR 0x5C] @ js_slice_from resolvedPath 2
                 else path)
           else if isWindowsDeviceRoot (code 0) \<and> code 1 = Some CHAR_COLON \<and> code 2 = Some CHAR_BACKWARD_SLASH
           then str [CHR 0x5C, CHR 0x5C, CHR ''?'', CHR 0x5C] @ resolvedPath
           else path)
        else path)"

section \<open>dirname, basename, extname\<close>

primrec win32_dirname_scan :: "nat \<Rightarrow> js_string \<Rightarrow> nat \<Rightarrow> bool \<Rightarrow> int" where
  "win32_dirname_scan offset path 0 matchedSlash = -1"
| "win32_dirname_scan offset path (Suc i) matchedSlash =
     (if i < offset then -1
      else if isPathSeparator (charCodeAt path (int i))
      then (if \<not> matchedSlash then int i else win32_dirname_scan offset path i matchedSlash)
      else win32_dirname_scan offset path i False)"

text \<open>The root of \<^verbatim>\<open>dirname\<close>: an early return of the path, or \<^verbatim>\<open>(rootEnd, offset)\<close>.\<close>

definition dirname_root :: "js_string \<Rightarrow> (int \<times> nat) option" where
  "dirname_root path =
     (let len = length path; code = charCodeAt path 0 in
      if len > 1
      then
        (if isPathSeparator code
         then
           (if isPathSeparator (charCodeAt path 1)
            then (case match_unc path of
                    Unc_none \<Rightarrow> Some (1, 1)
                  | Unc_only firstPart share \<Rightarrow> None
                  | Unc_leftovers firstPart share j \<Rightarrow> Some (int j + 1, j + 1))
            else Some (1, 1))
         else if isWindowsDeviceRoot code
         then
           (if charCodeAt path 1 = Some CHAR_COLON
            then (if len > 2 \<and> isPathSeparator (charCodeAt path 2) then Some (3, 3) else Some (2, 2))
            else Some (-1, 0))
         else Some (-1, 0))
      else if isPathSeparator code then None
      else Some (-1, 0))"

definition win32_dirname :: "js_string \<Rightarrow> js_string" where
  "win32_dirname path =
     (if length path = 0 then [CHAR_DOT]
      else
        case dirname_root path of
          None \<Rightarrow> path
        | Some (rootEnd, offset) \<Rightarrow>
            (let end = win32_dirname_scan offset path (length path) True in
             if end = -1 then (if rootEnd = -1 then [CHAR_DOT] else js_slice path 0 rootEnd)
             else js_slice path 0 end))"

definition drive_start :: "js_string \<Rightarrow> nat" where
  "drive_start path =
     (if length path \<ge> 2 \<and> isWindowsDeviceRoot (charCodeAt path 0) \<and> charCodeAt path 1 = Some CHAR_COLON then 2 else 0)"

definition win32_basename :: "js_string \<Rightarrow> js_string \<Rightarrow> js_string" where
  "win32_basename path ext = basename_from isPathSeparator (drive_start path) path ext"

definition win32_extname :: "js_string \<Rightarrow> js_string" where
  "win32_extname path =
     (let start = drive_start path;
          st = extname_scan isPathSeparator start path (length path) (scan_init (int start)) in
      if no_extension st then [] else js_slice path (e_startDot st) (e_end st))"

section \<open>format and parse\<close>

definition win32_format :: "ParsedPath \<Rightarrow> js_string" where
  "win32_format pathObject = format_with backslash pathObject"

text \<open>The root of \<^verbatim>\<open>parse\<close>: an early return (the whole path is the root) or \<^verbatim>\<open>rootEnd\<close>.\<close>

definition parse_root :: "js_string \<Rightarrow> nat option" where
  "parse_root path =
     (let len = length path; code = charCodeAt path 0 in
      if len > 1
      then
        (if isPathSeparator code
         then
           (if isPathSeparator (charCodeAt path 1)
            then (case match_unc path of
                    Unc_none \<Rightarrow> Some 1
                  | Unc_only firstPart share \<Rightarrow> Some len
                  | Unc_leftovers firstPart share j \<Rightarrow> Some (j + 1))
            else Some 1)
         else if isWindowsDeviceRoot code
         then
           (if charCodeAt path 1 = Some CHAR_COLON
            then (if len > 2
                  then (if isPathSeparator (charCodeAt path 2) then (if len = 3 then None else Some 3) else Some 2)
                  else None)
            else Some 0)
         else Some 0)
      else if isPathSeparator code then None
      else Some 0)"

definition win32_parse :: "js_string \<Rightarrow> ParsedPath" where
  "win32_parse path =
     (let ret = \<lparr>pp_root = [], pp_dir = [], pp_base = [], pp_ext = [], pp_name = []\<rparr> in
      if length path = 0 then ret
      else
        case parse_root path of
          None \<Rightarrow> ret\<lparr>pp_root := path, pp_dir := path\<rparr>
        | Some rootEnd \<Rightarrow>
            (let ret = (if rootEnd > 0 then ret\<lparr>pp_root := js_slice path 0 (int rootEnd)\<rparr> else ret);
                 st = extname_scan isPathSeparator rootEnd path (length path) (scan_init (int rootEnd));
                 ret =
                   (if no_extension st
                    then (if e_end st \<noteq> -1
                          then ret\<lparr>pp_base := js_slice path (e_startPart st) (e_end st),
                                   pp_name := js_slice path (e_startPart st) (e_end st)\<rparr>
                          else ret)
                    else ret\<lparr>pp_name := js_slice path (e_startPart st) (e_startDot st),
                             pp_base := js_slice path (e_startPart st) (e_end st),
                             pp_ext := js_slice path (e_startDot st) (e_end st)\<rparr>)
             in if e_startPart st > 0 \<and> e_startPart st \<noteq> int rootEnd
                then ret\<lparr>pp_dir := js_slice path 0 (e_startPart st - 1)\<rparr>
                else ret\<lparr>pp_dir := pp_root ret\<rparr>))"

end
