(* ===== verification/Path_Win32_Properties.thy ===== *)
theory Path_Win32_Properties
  imports Path_Win32 Path_Segments Path_Components
begin

text \<open>
  Roots of win32 paths and the normal form of \<^verbatim>\<open>normalize\<close>: a device (a drive letter or a UNC server and
  share), a separator if the path is absolute, and the normal segments.
\<close>

abbreviation is_sep :: "nat \<Rightarrow> bool" where
  "is_sep c \<equiv> isPathSeparator (Some c)"

abbreviation win32_segments :: "bool \<Rightarrow> js_string \<Rightarrow> js_string list" where
  "win32_segments allow path \<equiv> normal_segments allow is_sep path"

abbreviation win32_join_segments :: "js_string list \<Rightarrow> js_string" where
  "win32_join_segments ss \<equiv> join_segments CHAR_BACKWARD_SLASH ss"

lemmas normalizeString_win32 = win32_sep.normalizeString_ok

lemma is_sep_simps [simp]: "is_sep CHAR_BACKWARD_SLASH" "is_sep CHAR_FORWARD_SLASH" "\<not> is_sep CHAR_DOT" "\<not> is_sep CHAR_COLON"
    "\<not> isPathSeparator None"
  by (simp_all add: isPathSeparator_def isPosixPathSeparator_def char_defs)

lemma is_sep_letter [simp]: "isWindowsDeviceRoot (Some c) \<Longrightarrow> \<not> is_sep c"
  by (auto simp: isPathSeparator_def isPosixPathSeparator_def isWindowsDeviceRoot_def char_defs)

text \<open>Components: not empty and without separators.\<close>

definition component :: "js_string \<Rightarrow> bool" where
  "component s \<longleftrightarrow> s \<noteq> [] \<and> (\<forall>c \<in> set s. \<not> is_sep c)"

lemma component_simps [simp]: "component [CHAR_DOT]" "component [CHAR_DOT, CHAR_DOT]" "\<not> component []"
  by (simp_all add: component_def)

lemma win32_segments_component: "s \<in> set (win32_segments allow path) \<Longrightarrow> component s"
  using normal_stack_nonempty [OF normal_segments_normal] normal_segments_no_sep unfolding component_def by blast

section \<open>Roots\<close>

lemma skip_until_ok: "skip_until w path j = j + length (takeWhile (\<lambda>c. is_sep c \<noteq> w) (drop j path))"
proof (induction w path j rule: skip_until.induct)
  case (1 w path j)
  show ?case
  proof (cases "j < length path")
    case True
    then have d: "drop j path = path ! j # drop (Suc j) path" by (rule Cons_nth_drop_Suc [symmetric])
    show ?thesis using 1 True by (subst skip_until.simps) (simp add: d)
  next
    case False
    then show ?thesis by (subst skip_until.simps) simp
  qed
qed

lemma takeWhile_component:
  assumes "component f" "rest = [] \<or> is_sep (hd rest)"
  shows "takeWhile (\<lambda>c. \<not> is_sep c) (f @ rest) = f" "dropWhile (\<lambda>c. \<not> is_sep c) (f @ rest) = rest"
  using takeWhile_split [of f "\<lambda>c. \<not> is_sep c" rest] assms by (simp_all add: component_def)

text \<open>A UNC root in a path that starts with two separators.\<close>

lemma match_unc_ok:
  assumes f: "component f" and seps: "sp \<noteq> []" "\<forall>c \<in> set sp. is_sep c" and sh: "component sh"
    and rest: "rest = [] \<or> is_sep (hd rest)" and path: "path = a # b # f @ sp @ sh @ rest"
  shows "match_unc path =
    (if rest = [] then Unc_only f (2 + length f + length sp)
     else Unc_leftovers f (2 + length f + length sp) (2 + length f + length sp + length sh))"
proof -
  have hdsp: "is_sep (hd (sp @ sh @ rest))" using seps by (cases sp) simp_all
  have hdsh: "\<not> is_sep (hd (sh @ rest))" using sh by (cases sh) (simp_all add: component_def)
  have j1: "skip_until True path 2 = 2 + length f"
    using takeWhile_component(1) [OF f, of "sp @ sh @ rest"] hdsp by (simp add: skip_until_ok path)
  have "takeWhile is_sep (sp @ sh @ rest) = sp"
    using takeWhile_split [OF seps(2), of "sh @ rest"] hdsh by simp
  then have j2: "skip_until False path (2 + length f) = 2 + length f + length sp" by (simp add: skip_until_ok path)
  have d: "drop (2 + length f + length sp) path = sh @ rest" by (simp add: path)
  have j3: "skip_until True path (2 + length f + length sp) = 2 + length f + length sp + length sh"
    unfolding skip_until_ok d using takeWhile_component(1) [OF sh rest] by simp
  have sl: "js_slice path (int 2) (int (2 + length f)) = f" unfolding js_slice_int by (simp add: path)
  have len: "length path = 2 + length f + length sp + length sh + length rest" by (simp add: path)
  have ne: "f \<noteq> []" "sh \<noteq> []" using f sh by (simp_all add: component_def)
  show ?thesis
    unfolding match_unc_def Let_def j1 j2 j3 sl len using ne seps(1) by simp
qed

lemma match_unc_cases:
  assumes "path = a # b # s" "match_unc path \<noteq> Unc_none"
  obtains f sp sh rest where "component f" "sp \<noteq> []" "\<forall>c \<in> set sp. is_sep c" "component sh"
    "rest = [] \<or> is_sep (hd rest)" "s = f @ sp @ sh @ rest"
proof -
  define f s1 where "f = takeWhile (\<lambda>c. \<not> is_sep c) s" and "s1 = dropWhile (\<lambda>c. \<not> is_sep c) s"
  define sp s2 where "sp = takeWhile is_sep s1" and "s2 = dropWhile is_sep s1"
  define sh rest where "sh = takeWhile (\<lambda>c. \<not> is_sep c) s2" and "rest = dropWhile (\<lambda>c. \<not> is_sep c) s2"
  have s: "s = f @ s1" "s1 = sp @ s2" "s2 = sh @ rest"
    by (simp_all add: f_def s1_def sp_def s2_def sh_def rest_def)
  have j1: "skip_until True path 2 = 2 + length f" by (simp add: skip_until_ok assms(1) f_def)
  have j2: "skip_until False path (2 + length f) = 2 + length f + length sp"
    by (simp add: skip_until_ok assms(1) s(1) sp_def)
  have d: "drop (2 + length f + length sp) path = s2" by (simp add: assms(1) s(1,2))
  have j3: "skip_until True path (2 + length f + length sp) = 2 + length f + length sp + length sh"
    unfolding skip_until_ok d by (simp add: sh_def)
  have len: "length path = 2 + length f + length sp + length s2" by (simp add: assms(1) s(1,2))
  have "f \<noteq> [] \<and> s1 \<noteq> [] \<and> s2 \<noteq> []"
    using assms(2) unfolding match_unc_def Let_def j1 j2 len by (auto simp: s split: if_splits)
  moreover have "s1 \<noteq> [] \<Longrightarrow> sp \<noteq> []"
    using hd_dropWhile [of "\<lambda>c. \<not> is_sep c" s] by (cases s1) (auto simp: s1_def sp_def)
  moreover have "s2 \<noteq> [] \<Longrightarrow> sh \<noteq> []" using hd_dropWhile [of is_sep s1] by (cases s2) (auto simp: s2_def sh_def)
  ultimately have ne: "f \<noteq> []" "sp \<noteq> []" "sh \<noteq> []" by blast+
  show thesis
  proof
    show "component f" "component sh" using ne by (auto simp: component_def f_def sh_def dest: set_takeWhileD)
    show "\<forall>c \<in> set sp. is_sep c" by (auto simp: sp_def dest: set_takeWhileD)
    show "rest = [] \<or> is_sep (hd rest)" using hd_dropWhile [of "\<lambda>c. \<not> is_sep c" s2] by (auto simp: rest_def)
  qed (use ne s in simp_all)
qed

text \<open>The devices of a root: a drive, or a UNC server and share.\<close>

inductive device :: "js_string \<Rightarrow> bool" where
  drive: "isWindowsDeviceRoot (Some l) \<Longrightarrow> device [l, CHAR_COLON]"
| unc: "component f \<Longrightarrow> component sh \<Longrightarrow> device (unc_device f sh)"

text \<open>What a root match yields for a path, by the shape of the path.\<close>

lemma root_cases:
  obtains (none) "path = [] \<or> \<not> is_sep (hd path)" "drive_start path = 0"
  | (drive) l s where "path = l # CHAR_COLON # s" "isWindowsDeviceRoot (Some l)"
  | (unc) a b f sp sh rest where "is_sep a" "is_sep b" "component f" "sp \<noteq> []" "\<forall>c \<in> set sp. is_sep c" "component sh"
      "rest = [] \<or> is_sep (hd rest)" "path = a # b # f @ sp @ sh @ rest"
  | (seps) a b s where "is_sep a" "is_sep b" "path = a # b # s" "match_unc path = Unc_none"
  | (sep) a s where "is_sep a" "path = a # s" "s = [] \<or> \<not> is_sep (hd s)"
proof (cases path)
  case Nil
  then show ?thesis using none by (simp add: drive_start_def)
next
  case (Cons a t)
  show ?thesis
  proof (cases "is_sep a")
    case a: True
    show ?thesis
    proof (cases "t = [] \<or> \<not> is_sep (hd t)")
      case True
      then show ?thesis using sep a Cons by blast
    next
      case False
      then obtain b s where b: "path = a # b # s" "is_sep b" using Cons by (cases t) auto
      show ?thesis
      proof (cases "match_unc path = Unc_none")
        case True
        then show ?thesis using seps a b by blast
      next
        case False
        then show ?thesis using match_unc_cases [OF b(1) False] unc a b by metis
      qed
    qed
  next
    case a: False
    show ?thesis
    proof (cases "drive_start path = 0")
      case True
      then show ?thesis using none a Cons by simp
    next
      case False
      then obtain s where "path = a # CHAR_COLON # s" "isWindowsDeviceRoot (Some a)"
        using Cons by (cases t) (auto simp: drive_start_def charCodeAt_def split: if_splits)
      then show ?thesis using drive by blast
    qed
  qed
qed

section \<open>normalize\<close>

lemma normalize_root_drive:
  assumes "isWindowsDeviceRoot (Some l)"
  shows "normalize_root (l # CHAR_COLON # s) =
    (if s \<noteq> [] \<and> is_sep (hd s) then Root (Some [l, CHAR_COLON]) 3 True else Root (Some [l, CHAR_COLON]) 2 False)"
proof -
  have sl: "js_slice (l # CHAR_COLON # s) 0 2 = [l, CHAR_COLON]" for s
    using js_slice_0 [of "l # CHAR_COLON # s" 2] by (simp add: numeral_2_eq_2)
  have "charCodeAt (l # CHAR_COLON # s) 1 = Some CHAR_COLON"
    "charCodeAt (l # CHAR_COLON # s) 2 = (if s = [] then None else Some (hd s))"
    by (simp_all add: charCodeAt_def hd_conv_nth numeral_2_eq_2)
  then show ?thesis using assms by (simp add: normalize_root_def Let_def sl)
qed

lemma normalize_root_unc:
  assumes "is_sep a" "is_sep b" "component f" "sp \<noteq> []" "\<forall>c \<in> set sp. is_sep c" "component sh"
    "rest = [] \<or> is_sep (hd rest)" "path = a # b # f @ sp @ sh @ rest"
  shows "normalize_root path =
    (if rest = [] then Root_return (unc_device f sh @ backslash)
     else Root (Some (unc_device f sh)) (2 + length f + length sp + length sh) True)"
proof -
  let ?k = "2 + length f + length sp"
  have "charCodeAt path 0 = Some a" "charCodeAt path 1 = Some b" "length path > 1"
    by (simp_all add: assms(8) charCodeAt_def)
  moreover have "js_slice path (int ?k) (int (?k + length sh)) = sh" "rest = [] \<Longrightarrow> js_slice_from path (int ?k) = sh"
    unfolding js_slice_int js_slice_from_int by (simp_all add: assms(8))
  ultimately show ?thesis using assms(1,2)
    by (simp add: normalize_root_def Let_def match_unc_ok [OF assms(3-8)] del: of_nat_add js_slice_int js_slice_from_int)
qed

lemma normalize_root_seps:
  assumes "is_sep a" "is_sep b" "path = a # b # s" "match_unc path = Unc_none"
  shows "normalize_root path = Root None 0 True"
proof -
  have "charCodeAt path 0 = Some a" "charCodeAt path 1 = Some b" by (simp_all add: assms(3) charCodeAt_def)
  then show ?thesis using assms by (simp add: normalize_root_def Let_def)
qed

lemma normalize_root_sep:
  assumes "is_sep a" "s = [] \<or> \<not> is_sep (hd s)"
  shows "normalize_root (a # s) = (if s = [] then Root_return backslash else Root None 1 True)"
proof -
  have "charCodeAt (a # s) 1 = (if s = [] then None else Some (hd s))" by (simp add: charCodeAt_def hd_conv_nth)
  then show ?thesis using assms by (auto simp: normalize_root_def Let_def)
qed

lemma normalize_root_none:
  assumes "path \<noteq> []" "\<not> is_sep (hd path)" "drive_start path = 0"
  shows "normalize_root path = Root None 0 False"
  using assms by (auto simp: normalize_root_def Let_def charCodeAt_hd drive_start_def split: if_splits)

text \<open>What \<^verbatim>\<open>normalize\<close> puts after the root.\<close>

definition normal_tail :: "bool \<Rightarrow> bool \<Rightarrow> js_string list \<Rightarrow> js_string" where
  "normal_tail absolute trailing ss =
     (let t = (if ss = [] \<and> \<not> absolute then [CHAR_DOT] else win32_join_segments ss)
      in if t \<noteq> [] \<and> trailing then t @ backslash else t)"

lemma win32_join_empty: "\<forall>s \<in> set ss. component s \<Longrightarrow> win32_join_segments ss = [] \<longleftrightarrow> ss = []"
  by (rule join_Nil_iff) (auto simp: component_def)

lemma win32_normalize_ok:
  assumes "path \<noteq> []" "normalize_root path = Root dev re absolute"
  shows "win32_normalize path =
    (case dev of None \<Rightarrow> [] | Some d \<Rightarrow> d) @ (if absolute then backslash else []) @
      normal_tail absolute (is_sep (last path)) (win32_segments (\<not> absolute) (drop re path))"
proof -
  define ss where "ss = win32_segments (\<not> absolute) (drop re path)"
  have e: "win32_join_segments ss = [] \<longleftrightarrow> ss = []"
    unfolding ss_def using win32_join_empty win32_segments_component by blast
  have t: "(if re < length path then normalizeString (js_slice_from path (int re)) (\<not> absolute) CHAR_BACKWARD_SLASH isPathSeparator
      else []) = win32_join_segments ss"
    by (simp add: normalizeString_win32 ss_def) (simp add: normal_segments_def push_segment_def)
  show ?thesis
    using assms(1) unfolding win32_normalize_def assms(2) Let_def normal_root.case t charCodeAt_last [OF assms(1)] normal_tail_def
      ss_def [symmetric]
    by (cases absolute; cases dev) (simp_all add: e)
qed

lemma win32_join_ends:
  assumes "ss \<noteq> []" "\<forall>s \<in> set ss. component s"
  shows "win32_join_segments ss \<noteq> []" "\<not> is_sep (hd (win32_join_segments ss))" "\<not> is_sep (last (win32_join_segments ss))"
proof -
  have ne: "\<forall>s \<in> set ss. s \<noteq> []" using assms(2) unfolding component_def by blast
  have "hd ss \<in> set ss" "hd (hd ss) \<in> set (hd ss)" "last ss \<in> set ss" "last (last ss) \<in> set (last ss)"
    using assms(1) ne by simp_all
  then show "win32_join_segments ss \<noteq> []" "\<not> is_sep (hd (win32_join_segments ss))" "\<not> is_sep (last (win32_join_segments ss))"
    using join_hd [OF assms(1) ne] join_last [OF assms(1) ne] assms(2) unfolding component_def by metis+
qed

lemma win32_segments_join:
  assumes "normal_stack allow ss" "\<forall>s \<in> set ss. component s"
  shows "win32_segments allow (win32_join_segments ss) = ss"
  using assms(2) by (intro normal_segments_join [OF assms(1)]) (auto simp: component_def)

lemma normal_tail_facts:
  assumes "normal_stack (\<not> absolute) ss" "\<forall>s \<in> set ss. component s" "t = normal_tail absolute e ss"
  shows "win32_segments (\<not> absolute) t = ss" "t = [] \<longleftrightarrow> absolute \<and> ss = []"
    "t \<noteq> [] \<Longrightarrow> \<not> is_sep (hd t)" "t \<noteq> [] \<Longrightarrow> is_sep (last t) = e"
proof -
  have dot: "win32_segments allow [CHAR_DOT] = []" "win32_segments allow (CHAR_DOT # backslash) = []" for allow
    by (simp_all add: normal_segments_def push_segment_def)
  have trail: "win32_segments allow (x @ backslash) = win32_segments allow x" for allow x
    by (simp add: normal_segments_trailing)
  note j = win32_join_ends [OF _ assms(2)] win32_segments_join [OF assms(1,2)]
  show "win32_segments (\<not> absolute) t = ss"
    using j(4) dot by (cases "ss = []"; cases absolute) (simp_all add: assms(3) normal_tail_def Let_def trail)
  show "t = [] \<longleftrightarrow> absolute \<and> ss = []" "t \<noteq> [] \<Longrightarrow> \<not> is_sep (hd t)" "t \<noteq> [] \<Longrightarrow> is_sep (last t) = e"
    using j(1-3) by (cases "ss = []"; auto simp: assms(3) normal_tail_def Let_def)+
qed

lemma normal_tail_again:
  assumes "normal_stack (\<not> absolute) ss" "\<forall>s \<in> set ss. component s" "t = normal_tail absolute e ss"
  shows "normal_tail absolute (is_sep (last (x @ t))) ss = t"
  using normal_tail_facts [OF assms] assms(3) by (cases "t = []") (auto simp: normal_tail_def Let_def)

text \<open>A path that consists of a root in its normal form and a normal tail is left alone.\<close>

lemma normalize_normal:
  assumes ss: "normal_stack (\<not> absolute) ss" "\<forall>s \<in> set ss. component s" and t: "t = normal_tail absolute e ss"
    and dev: "dev = [] \<or> device dev"
    and unc: "hd dev = CHAR_BACKWARD_SLASH \<Longrightarrow> dev \<noteq> [] \<Longrightarrow> absolute"
    and start: "dev = [] \<Longrightarrow> \<not> absolute \<Longrightarrow> drive_start t = 0"
    and path: "path = dev @ (if absolute then backslash else []) @ t"
  shows "win32_normalize path = path"
proof -
  note facts = normal_tail_facts [OF ss t] and again = normal_tail_again [OF ss t]
  have lead: "win32_segments allow (CHAR_BACKWARD_SLASH # x) = win32_segments allow x" for allow x
    by (rule normal_segments_leading) simp
  consider (rel) "dev = []" "\<not> absolute" | (abs) "dev = []" "absolute"
    | (drive) l where "dev = [l, CHAR_COLON]" "isWindowsDeviceRoot (Some l)"
    | (unc) f sh where "dev = unc_device f sh" "component f" "component sh"
    using dev by (auto elim: device.cases)
  then show ?thesis
  proof cases
    case rel
    then have p: "path = t" "t \<noteq> []" "\<not> is_sep (hd t)" using facts path by simp_all
    have "win32_normalize path = normal_tail False (is_sep (last path)) (win32_segments True path)"
      using win32_normalize_ok [OF _ normalize_root_none] p rel start by simp
    then show ?thesis using facts(1) again [of "[]"] rel p by simp
  next
    case abs
    then have p: "path = CHAR_BACKWARD_SLASH # t" using path by simp
    show ?thesis
    proof (cases "t = []")
      case True
      then show ?thesis using normalize_root_sep [of CHAR_BACKWARD_SLASH "[]"] by (simp add: p win32_normalize_def)
    next
      case False
      then have "win32_normalize path = CHAR_BACKWARD_SLASH # normal_tail True (is_sep (last path)) (win32_segments False t)"
        using win32_normalize_ok [OF _ normalize_root_sep [of CHAR_BACKWARD_SLASH t, THEN trans], of None 1 True] facts(3)
        by (simp add: p)
      then show ?thesis using facts(1) again [of backslash] abs p by simp
    qed
  next
    case drive
    show ?thesis
    proof (cases absolute)
      case True
      then have p: "path = l # CHAR_COLON # CHAR_BACKWARD_SLASH # t" using path drive by simp
      have r: "normalize_root path = Root (Some dev) 3 True" using normalize_root_drive [OF drive(2)] drive(1) by (simp add: p)
      have "drop 3 path = t" by (simp add: p numeral_3_eq_3)
      then show ?thesis using win32_normalize_ok [OF _ r] facts(1) again [of "[l, CHAR_COLON, CHAR_BACKWARD_SLASH]"] drive True p
        by simp
    next
      case False
      then have p: "path = l # CHAR_COLON # t" using path drive by simp
      have r: "normalize_root path = Root (Some dev) 2 False"
        using normalize_root_drive [OF drive(2)] drive(1) facts(2,3) False by (simp add: p)
      show ?thesis using win32_normalize_ok [OF _ r] facts(1) again [of "[l, CHAR_COLON]"] drive False p
        by simp
    qed
  next
    case u: unc
    have abs: absolute using unc u(1) by (simp add: unc_device_def)
    let ?rest = "CHAR_BACKWARD_SLASH # t"
    have p: "path = CHAR_BACKWARD_SLASH # CHAR_BACKWARD_SLASH # f @ backslash @ sh @ ?rest"
      using path u abs by (simp add: unc_device_def)
    have r: "normalize_root path = Root (Some dev) (2 + length f + length backslash + length sh) True"
      using normalize_root_unc [OF _ _ u(2) _ _ u(3) _ p] u(1) by simp
    have d: "drop (2 + length f + length backslash + length sh) path = ?rest" by (simp add: p)
    have ne: "path \<noteq> []" by (simp add: p)
    have "is_sep (last path) = is_sep (last ((dev @ backslash) @ t))" using path abs by simp
    then show ?thesis using win32_normalize_ok [OF ne r] facts(1) again [of "dev @ backslash"] path abs
      unfolding d lead by simp
  qed
qed

text \<open>The segments of a path without a colon have no colon, so they do not look like a drive.\<close>

lemma segments_chars: "s \<in> set (segments p acc path) \<Longrightarrow> set s \<subseteq> set acc \<union> set path"
  by (induction p acc path rule: segments.induct) (auto split: if_splits)

lemma charCodeAt_mem: "charCodeAt s i = Some c \<Longrightarrow> c \<in> set s"
  by (auto simp: charCodeAt_def nat_less_iff intro!: nth_mem split: if_splits)

lemma normal_tail_no_drive:
  assumes "CHAR_COLON \<notin> set path" "ss = win32_segments True path"
  shows "drive_start (normal_tail False e ss) = 0"
proof -
  have "CHAR_COLON \<notin> set s" if "s \<in> set ss" for s
    using fold_push_set [of s True "segments is_sep [] path" "[]"] segments_chars [of s is_sep "[]" path] assms that
    by (auto simp: normal_segments_def)
  then have "CHAR_COLON \<notin> set (win32_join_segments ss)" by (induction CHAR_BACKWARD_SLASH ss rule: join_segments.induct) (auto simp: char_defs)
  then have "CHAR_COLON \<notin> set (normal_tail False e ss)" by (auto simp: normal_tail_def Let_def char_defs)
  then have "charCodeAt (normal_tail False e ss) 1 \<noteq> Some CHAR_COLON"
    using charCodeAt_mem by blast
  then show ?thesis by (simp add: drive_start_def)
qed

lemma normalize_twice:
  assumes "path \<noteq> []" "normalize_root path = Root dev re absolute"
    and dev: "\<And>d. dev = Some d \<Longrightarrow> device d" "\<And>d. dev = Some d \<Longrightarrow> hd d = CHAR_BACKWARD_SLASH \<Longrightarrow> absolute"
    and colon: "dev = None \<Longrightarrow> \<not> absolute \<Longrightarrow> CHAR_COLON \<notin> set path"
  shows "win32_normalize (win32_normalize path) = win32_normalize path"
proof -
  define ss where "ss = win32_segments (\<not> absolute) (drop re path)"
  define d where "d = (case dev of None \<Rightarrow> [] | Some d \<Rightarrow> d)"
  have n: "win32_normalize path = d @ (if absolute then backslash else []) @ normal_tail absolute (is_sep (last path)) ss"
    using win32_normalize_ok [OF assms(1,2)] by (simp add: ss_def d_def)
  have dd: "d = [] \<or> device d" "hd d = CHAR_BACKWARD_SLASH \<Longrightarrow> d \<noteq> [] \<Longrightarrow> absolute"
    using dev by (cases dev; simp add: d_def)+
  have "drive_start (normal_tail absolute (is_sep (last path)) ss) = 0" if "d = []" "\<not> absolute"
  proof -
    have "dev = None" using that dev(1) by (cases dev) (auto simp: d_def elim: device.cases simp: unc_device_def)
    then have "CHAR_COLON \<notin> set (drop re path)" using colon that by (auto dest: in_set_dropD)
    then show ?thesis using normal_tail_no_drive [of "drop re path" ss] that by (simp add: ss_def)
  qed
  moreover have "normal_stack (\<not> absolute) ss" "\<forall>s \<in> set ss. component s"
    using win32_segments_component by (auto simp: ss_def normal_segments_normal)
  ultimately show ?thesis using normalize_normal [OF _ _ refl dd, of ss "is_sep (last path)" "win32_normalize path"] n by blast
qed

lemma normalize_unc_root:
  assumes "component f" "component sh"
  shows "win32_normalize (unc_device f sh @ backslash) = unc_device f sh @ backslash"
  using device.unc [OF assms] by (intro normalize_normal [of True "[]" "[]" False "unc_device f sh"]) (simp_all add: normal_tail_def)

text \<open>
  C20. \<^verbatim>\<open>path.win32.normalize\<close> is idempotent on every path that has a root (a drive letter, a UNC share or
  a leading separator) or contains no colon.
\<close>

theorem win32_normalize_idempotent:
  assumes "drive_start path = 2 \<or> win32_isAbsolute path \<or> CHAR_COLON \<notin> set path"
  shows "win32_normalize (win32_normalize path) = win32_normalize path"
proof (cases path rule: root_cases)
  case none
  show ?thesis
  proof (cases "path = []")
    case True
    have "win32_normalize [] = [CHAR_DOT]" "win32_normalize [CHAR_DOT] = [CHAR_DOT]" by code_simp+
    then show ?thesis by (simp add: True)
  next
    case False
    then have "\<not> win32_isAbsolute path"
      using none by (auto simp: win32_isAbsolute_def Let_def charCodeAt_hd drive_start_def split: if_splits)
    then have "CHAR_COLON \<notin> set path" using assms none by simp
    then show ?thesis using normalize_twice [OF False normalize_root_none] none False by simp
  qed
next
  case (drive l s)
  then show ?thesis using normalize_root_drive [OF drive(2), of s]
    by (intro normalize_twice [of path "Some [l, CHAR_COLON]" "if s \<noteq> [] \<and> is_sep (hd s) then 3 else 2" "s \<noteq> [] \<and> is_sep (hd s)"])
      (auto intro: device.drive dest: is_sep_letter)
next
  case (unc a b f sp sh rest)
  note r = normalize_root_unc [OF unc]
  show ?thesis
  proof (cases "rest = []")
    case True
    have "win32_normalize path = unc_device f sh @ backslash" using r True by (simp add: win32_normalize_def unc(8))
    then show ?thesis using normalize_unc_root [OF unc(3,6)] by simp
  next
    case False
    then show ?thesis using normalize_twice [OF _ r [unfolded if_not_P [OF False]]] device.unc [OF unc(3,6)] unc(8) by simp
  qed
next
  case (seps a b s)
  then show ?thesis using normalize_twice [OF _ normalize_root_seps [OF seps]] by simp
next
  case (sep a s)
  show ?thesis
  proof (cases "s = []")
    case True
    have "win32_normalize backslash = backslash" by code_simp
    then show ?thesis using normalize_root_sep [OF sep(1,3)] True by (simp add: win32_normalize_def sep(2))
  next
    case False
    then show ?thesis using normalize_twice [of path None 1 True] normalize_root_sep [OF sep(1,3)] by (simp add: sep(2))
  qed
qed

theorem win32_normalize_idempotent_witness:
  "win32_normalize (str ''//server/share/a/../b/'') = unc_device (str ''server'') (str ''share'') @ backslash @ str ''b'' @ backslash \<and>
   win32_normalize (unc_device (str ''server'') (str ''share'') @ backslash @ str ''b'' @ backslash) =
     unc_device (str ''server'') (str ''share'') @ backslash @ str ''b'' @ backslash"
proof -
  have h: "drive_start (str ''//server/share/a/../b/'') = 2 \<or> win32_isAbsolute (str ''//server/share/a/../b/'') \<or>
      CHAR_COLON \<notin> set (str ''//server/share/a/../b/'')" by code_simp
  have n: "win32_normalize (str ''//server/share/a/../b/'') = unc_device (str ''server'') (str ''share'') @ backslash @ str ''b'' @ backslash"
    by code_simp
  show ?thesis using n win32_normalize_idempotent [OF h] unfolding n by blast
qed

text \<open>
  C21. \<^verbatim>\<open>path.win32.normalize\<close> can turn a relative path into one on another drive. For every drive letter
  \<^verbatim>\<open>l\<close> and every sequence of components, \<^verbatim>\<open>./l:/...\<close> is a relative path, and its normal form \<^verbatim>\<open>l:\...\<close>
  is absolute.
\<close>

theorem win32_normalize_escapes_to_drive:
  assumes "isWindowsDeviceRoot (Some l)" "\<forall>s \<in> set ss. component s \<and> proper s" "ss \<noteq> []"
  shows "\<not> win32_isAbsolute ([CHAR_DOT, CHAR_FORWARD_SLASH, l, CHAR_COLON, CHAR_FORWARD_SLASH] @ win32_join_segments ss) \<and>
    win32_normalize ([CHAR_DOT, CHAR_FORWARD_SLASH, l, CHAR_COLON, CHAR_FORWARD_SLASH] @ win32_join_segments ss) =
      [l, CHAR_COLON, CHAR_BACKWARD_SLASH] @ win32_join_segments ss \<and>
    win32_isAbsolute ([l, CHAR_COLON, CHAR_BACKWARD_SLASH] @ win32_join_segments ss)"
proof (intro conjI)
  let ?p = "[CHAR_DOT, CHAR_FORWARD_SLASH, l, CHAR_COLON, CHAR_FORWARD_SLASH] @ win32_join_segments ss"
  let ?l = "[l, CHAR_COLON]"
  have dot: "\<not> isWindowsDeviceRoot (Some CHAR_DOT)" by (simp add: isWindowsDeviceRoot_def char_defs)
  show "\<not> win32_isAbsolute ?p" using dot by (simp add: win32_isAbsolute_def Let_def)
  show "win32_isAbsolute ([l, CHAR_COLON, CHAR_BACKWARD_SLASH] @ win32_join_segments ss)"
    using assms(1) by (simp add: win32_isAbsolute_def Let_def charCodeAt_def)
  have comp: "\<forall>s \<in> set ss. component s" "\<forall>s \<in> set (?l # ss). component s"
    using assms(1,2) by (auto simp: component_def)
  have seg: "segments is_sep [] (win32_join_segments ss) = ss"
    using comp(1) by (intro segments_join [OF assms(3)]) (auto simp: component_def)
  have ok: "\<forall>s \<in> set (?l # ss). proper s" using assms(1,2) by (auto simp: proper_def char_defs)
  have "win32_segments True ?p = fold (push_segment True) ([CHAR_DOT] # ?l # ss) []"
    using assms(1) seg by (simp add: normal_segments_def)
  also have "\<dots> = fold (push_segment True) (?l # ss) []" by (simp add: push_segment_def)
  also have "\<dots> = ?l # ss" using fold_push_proper [OF ok, of True "[]"] by simp
  finally have "win32_segments True ?p = ?l # ss" .
  moreover have "\<not> is_sep (last ?p)" using win32_join_ends [OF assms(3) comp(1)] by simp
  moreover have "normalize_root ?p = Root None 0 False" using dot by (intro normalize_root_none) (simp_all add: drive_start_def)
  ultimately have "win32_normalize ?p = win32_join_segments (?l # ss)"
    using win32_normalize_ok [of ?p None 0 False] by (simp add: normal_tail_def)
  then show "win32_normalize ?p = [l, CHAR_COLON, CHAR_BACKWARD_SLASH] @ win32_join_segments ss"
    using assms(3) by (cases ss) simp_all
qed

theorem win32_normalize_escapes_to_drive_witness:
  "\<not> win32_isAbsolute (str ''./C:/Windows'') \<and> win32_isAbsolute (win32_normalize (str ''./C:/Windows''))"
proof -
  have h: "isWindowsDeviceRoot (Some 67)" "\<forall>s \<in> set [str ''Windows'']. component s \<and> proper s" "[str ''Windows''] \<noteq> []"
    by (simp add: isWindowsDeviceRoot_def char_defs, simp add: component_def proper_def, code_simp, simp)
  have p: "[CHAR_DOT, CHAR_FORWARD_SLASH, 67, CHAR_COLON, CHAR_FORWARD_SLASH] @ win32_join_segments [str ''Windows''] = str ''./C:/Windows''"
    by code_simp
  show ?thesis using win32_normalize_escapes_to_drive [OF h] unfolding p by simp
qed

end
