(* ===== verification/Path_Win32_Resolve.thy ===== *)
theory Path_Win32_Resolve
  imports Path_Win32_Properties
begin

text \<open>
  \<^verbatim>\<open>resolve\<close> of the win32 flavour: with a working directory on a drive the result is an absolute path
  in normal form, whatever the arguments; resolving it again changes nothing.
\<close>

section \<open>Roots\<close>

lemma resolve_root_drive:
  assumes "isWindowsDeviceRoot (Some l)"
  shows "resolve_root (l # CHAR_COLON # s) =
    (if s \<noteq> [] \<and> is_sep (hd s) then ([l, CHAR_COLON], 3, True) else ([l, CHAR_COLON], 2, False))"
proof -
  have sl: "js_slice (l # CHAR_COLON # s) 0 2 = [l, CHAR_COLON]" for s
    using js_slice_0 [of "l # CHAR_COLON # s" 2] by (simp add: numeral_2_eq_2)
  have "charCodeAt (l # CHAR_COLON # s) 1 = Some CHAR_COLON"
    "charCodeAt (l # CHAR_COLON # s) 2 = (if s = [] then None else Some (hd s))"
    by (simp_all add: charCodeAt_def hd_conv_nth numeral_2_eq_2)
  then show ?thesis using assms by (simp add: resolve_root_def Let_def sl)
qed

lemma resolve_root_unc:
  assumes "is_sep a" "is_sep b" "component f" "sp \<noteq> []" "\<forall>c \<in> set sp. is_sep c" "component sh"
    "rest = [] \<or> is_sep (hd rest)" "path = a # b # f @ sp @ sh @ rest"
  shows "resolve_root path = (unc_device f sh, 2 + length f + length sp + length sh, True)"
proof -
  let ?k = "2 + length f + length sp"
  have "charCodeAt path 0 = Some a" "charCodeAt path 1 = Some b" "length path > 1"
    by (simp_all add: assms(8) charCodeAt_def)
  moreover have "js_slice path (int ?k) (int (?k + length sh)) = sh" "rest = [] \<Longrightarrow> js_slice_from path (int ?k) = sh"
    unfolding js_slice_int js_slice_from_int by (simp_all add: assms(8))
  moreover have "rest = [] \<Longrightarrow> length path = ?k + length sh" by (simp add: assms(8))
  ultimately show ?thesis using assms(1,2)
    by (simp add: resolve_root_def Let_def match_unc_ok [OF assms(3-8)] del: of_nat_add js_slice_int js_slice_from_int)
qed

lemma resolve_root_device:
  assumes "resolve_root path = (dev, re, absolute)"
  shows "dev = [] \<or> device dev" "dev \<noteq> [] \<Longrightarrow> hd dev = CHAR_BACKWARD_SLASH \<Longrightarrow> absolute"
proof -
  have "(dev = [] \<or> device dev) \<and> (dev \<noteq> [] \<longrightarrow> hd dev = CHAR_BACKWARD_SLASH \<longrightarrow> absolute)"
  proof (cases path rule: root_cases)
    case none
    then have "\<not> isPathSeparator (charCodeAt path 0)" by (cases path) simp_all
    then have "dev = []" using none assms by (auto simp: resolve_root_def Let_def drive_start_def split: if_splits)
    then show ?thesis by simp
  next
    case (drive l s)
    then show ?thesis using assms resolve_root_drive [OF drive(2), of s]
      by (auto intro: device.drive dest: is_sep_letter split: if_splits)
  next
    case (unc a b f sp sh rest)
    then show ?thesis using assms resolve_root_unc [OF unc] device.unc [OF unc(3,6)] by simp
  next
    case (seps a b s)
    then have "dev = []" using assms by (auto simp: resolve_root_def Let_def charCodeAt_def split: if_splits)
    then show ?thesis by simp
  next
    case (sep a s)
    then have "dev = []" using assms by (auto simp: resolve_root_def Let_def charCodeAt_def hd_conv_nth split: if_splits)
    then show ?thesis by simp
  qed
  then show "dev = [] \<or> device dev" "dev \<noteq> [] \<Longrightarrow> hd dev = CHAR_BACKWARD_SLASH \<Longrightarrow> absolute" by simp_all
qed

section \<open>The loop\<close>

definition resolve_ok :: "resolve_state \<Rightarrow> bool" where
  "resolve_ok st \<longleftrightarrow> r_device st = [] \<or>
     device (r_device st) \<and> (hd (r_device st) = CHAR_BACKWARD_SLASH \<longrightarrow> r_absolute st)"

lemma resolve_step_ok:
  assumes "resolve_ok st"
  shows "resolve_ok (resolve_step toLowerCase path st)"
proof -
  obtain dev re absolute where r: "resolve_root path = (dev, re, absolute)" by (cases "resolve_root path") auto
  show ?thesis using resolve_root_device [OF r] assms
    by (auto simp: resolve_step_def r resolve_ok_def Let_def split: if_splits)
qed

text \<open>
  What the model needs of \<^verbatim>\<open>toLowerCase\<close>: it handles the separator after a drive on its own.
\<close>

definition lower_drive :: "(js_string \<Rightarrow> js_string) \<Rightarrow> bool" where
  "lower_drive toLowerCase \<longleftrightarrow>
     (\<forall>l c. isWindowsDeviceRoot (Some l) \<longrightarrow> is_sep c \<longrightarrow>
        toLowerCase [l, CHAR_COLON, c] = toLowerCase [l, CHAR_COLON] @ [c])"

lemma resolve_cwd_ok:
  assumes "lower_drive toLowerCase" "isWindowsDeviceRoot (Some l)" "is_sep c" "cwd = l # CHAR_COLON # c # s"
    "resolve_ok st"
  shows "r_absolute (resolve_step toLowerCase (resolve_cwd toLowerCase cwd (r_device st)) st)"
    "r_device (resolve_step toLowerCase (resolve_cwd toLowerCase cwd (r_device st)) st) \<noteq> []"
proof -
  have root: "resolve_root (l' # CHAR_COLON # c' # s') = ([l', CHAR_COLON], 3, True)"
    if "isWindowsDeviceRoot (Some l')" "is_sep c'" for l' c' s'
    using resolve_root_drive [OF that(1), of "c' # s'"] that(2) by simp
  let ?path = "resolve_cwd toLowerCase cwd (r_device st)"
  have "r_absolute (resolve_step toLowerCase ?path st) \<and> r_device (resolve_step toLowerCase ?path st) \<noteq> []"
  proof (cases "r_device st = [] \<or> r_absolute st \<and> r_device st \<noteq> []")
    case True
    then show ?thesis
      using root [OF assms(2,3), of s]
      by (cases "r_device st = []")
        (auto simp: resolve_cwd_def resolve_step_def assms(4) Let_def split: prod.split)
  next
    case False
    then obtain l' where d: "r_device st = [l', CHAR_COLON]" "isWindowsDeviceRoot (Some l')" "\<not> r_absolute st"
      using assms(5) by (auto simp: resolve_ok_def unc_device_def elim: device.cases)
    show ?thesis
    proof (cases "?path = cwd")
      case True
      have "js_slice cwd 0 3 = [l, CHAR_COLON, c]" using js_slice_0 [of cwd 3] by (simp add: assms(4) numeral_3_eq_3)
      then have eq: "toLowerCase [l, CHAR_COLON] = toLowerCase [l', CHAR_COLON] \<or> cwd = r_device st @ backslash"
        using True assms(1-3) d(1) unfolding resolve_cwd_def lower_drive_def by (auto split: if_splits)
      have "toLowerCase [l, CHAR_COLON] = toLowerCase [l', CHAR_COLON]" using eq assms(4) d(1) by auto
      then show ?thesis using d root [OF assms(2,3), of s] unfolding True by (simp add: resolve_step_def assms(4) Let_def)
    next
      case False
      then have "?path = l' # CHAR_COLON # CHAR_BACKWARD_SLASH # []" using d(1) by (auto simp: resolve_cwd_def split: if_splits)
      then show ?thesis using d root [OF d(2), of CHAR_BACKWARD_SLASH "[]"] by (simp add: resolve_step_def Let_def)
    qed
  qed
  then show "r_absolute (resolve_step toLowerCase ?path st)" "r_device (resolve_step toLowerCase ?path st) \<noteq> []" by simp_all
qed

lemma resolve_loop_absolute_device:
  assumes "lower_drive toLowerCase" "isWindowsDeviceRoot (Some l)" "is_sep c" "cwd = l # CHAR_COLON # c # s" "resolve_ok st"
  shows "r_absolute (win32_resolve_loop toLowerCase cwd ps st) \<and> device (r_device (win32_resolve_loop toLowerCase cwd ps st))"
  using assms(5)
proof (induction ps arbitrary: st)
  case Nil
  then show ?case
    using resolve_cwd_ok [OF assms(1-4) Nil] resolve_step_ok [OF Nil, of toLowerCase "resolve_cwd toLowerCase cwd (r_device st)"]
    by (simp add: resolve_ok_def)
next
  case (Cons p ps)
  have ok: "resolve_ok (resolve_step toLowerCase p st)" by (rule resolve_step_ok [OF Cons.prems])
  show ?case using Cons.IH [OF ok] ok by (auto simp: Let_def resolve_ok_def)
qed

text \<open>The result: a device, a separator and the normal segments.\<close>

lemma win32_resolve_form:
  assumes "lower_drive toLowerCase" "isWindowsDeviceRoot (Some l)" "is_sep c" "cwd = l # CHAR_COLON # c # s"
  obtains dev ss where "device dev" "normal_stack False ss" "\<forall>s \<in> set ss. component s"
    "win32_resolve toLowerCase cwd paths = dev @ backslash @ win32_join_segments ss"
proof -
  let ?st = "win32_resolve_loop toLowerCase cwd (rev paths) \<lparr>r_device = [], r_tail = [], r_absolute = False\<rparr>"
  have st: "r_absolute ?st" "device (r_device ?st)"
    using resolve_loop_absolute_device [OF assms, of "\<lparr>r_device = [], r_tail = [], r_absolute = False\<rparr>" "rev paths"]
    by (simp_all add: resolve_ok_def)
  show thesis
  proof
    show "win32_resolve toLowerCase cwd paths =
        r_device ?st @ backslash @ win32_join_segments (win32_segments False (r_tail ?st))"
      using st(1) by (simp add: win32_resolve_def normalizeString_win32 Let_def)
  qed (use st(2) win32_segments_component in \<open>auto simp: normal_segments_normal\<close>)
qed

lemma win32_resolve_resolved:
  assumes "device dev" "normal_stack False ss" "\<forall>s \<in> set ss. component s" "path = dev @ backslash @ win32_join_segments ss"
  shows "win32_resolve toLowerCase cwd [path] = path" "win32_isAbsolute path"
proof -
  let ?j = "win32_join_segments ss"
  have seg: "win32_segments False ?j = ss" by (rule win32_segments_join [OF assms(2,3)])
  have main: "win32_resolve toLowerCase cwd [path] = path"
    if root: "resolve_root path = (dev, re, True)" and re: "drop re path = pre @ ?j" and pre: "pre = [] \<or> pre = backslash" for re pre
  proof -
    have "win32_segments False (pre @ ?j @ backslash) = ss"
      using pre seg normal_segments_trailing [of is_sep CHAR_BACKWARD_SLASH False "pre @ ?j"] normal_segments_leading [of is_sep CHAR_BACKWARD_SLASH False ?j]
      by auto
    moreover have "path \<noteq> []" "dev \<noteq> []" using assms(1,4) by (auto simp: unc_device_def elim: device.cases)
    ultimately have "win32_resolve toLowerCase cwd [path] = dev @ backslash @ ?j"
      by (simp add: win32_resolve_def resolve_step_def root re Let_def normalizeString_win32)
    then show ?thesis using assms(4) by simp
  qed
  show "win32_resolve toLowerCase cwd [path] = path"
    using assms(1)
  proof cases
    case (drive l)
    then have p: "path = l # CHAR_COLON # CHAR_BACKWARD_SLASH # ?j" using assms(4) by simp
    show ?thesis
    proof (rule main)
      show "resolve_root path = (dev, 3, True)" using resolve_root_drive [OF drive(2), of "CHAR_BACKWARD_SLASH # ?j"] drive(1) p by simp
      show "drop 3 path = [] @ ?j" by (simp add: p numeral_3_eq_3)
    qed simp
  next
    case (unc f sh)
    then have p: "path = CHAR_BACKWARD_SLASH # CHAR_BACKWARD_SLASH # f @ backslash @ sh @ (CHAR_BACKWARD_SLASH # ?j)"
      using assms(4) by (simp add: unc_device_def)
    show ?thesis
    proof (rule main)
      show "resolve_root path = (dev, 2 + length f + length backslash + length sh, True)"
        using resolve_root_unc [OF _ _ unc(2) _ _ unc(3) _ p] unc(1) by simp
      show "drop (2 + length f + length backslash + length sh) path = backslash @ ?j" by (simp add: p)
    qed simp
  qed
  show "win32_isAbsolute path"
    using assms(1)
  proof cases
    case (drive l)
    then show ?thesis using assms(4) by (simp add: win32_isAbsolute_def Let_def charCodeAt_def)
  next
    case (unc f sh)
    then show ?thesis using assms(4) by (simp add: win32_isAbsolute_def Let_def unc_device_def)
  qed
qed

text \<open>
  C22. \<^verbatim>\<open>path.win32.resolve\<close>, with a working directory on a drive, returns an absolute path whatever its
  arguments are (relative, on other drives, UNC, empty), and resolving the result again, from any
  working directory and with any lower-casing, returns it unchanged.
\<close>

theorem win32_resolve_absolute:
  assumes "lower_drive toLowerCase" "isWindowsDeviceRoot (Some l)" "is_sep c"
  shows "win32_isAbsolute (win32_resolve toLowerCase (l # CHAR_COLON # c # s) paths) \<and>
    win32_resolve lower' cwd' [win32_resolve toLowerCase (l # CHAR_COLON # c # s) paths] =
      win32_resolve toLowerCase (l # CHAR_COLON # c # s) paths"
proof -
  obtain dev ss where r: "device dev" "normal_stack False ss" "\<forall>s \<in> set ss. component s"
    "win32_resolve toLowerCase (l # CHAR_COLON # c # s) paths = dev @ backslash @ win32_join_segments ss"
    by (rule win32_resolve_form [OF assms refl])
  then show ?thesis using win32_resolve_resolved by blast
qed

text \<open>Lower-casing ASCII letters one by one.\<close>

definition ascii_lower :: "js_string \<Rightarrow> js_string" where
  "ascii_lower s = map (\<lambda>c. if CHAR_UPPERCASE_A \<le> c \<and> c \<le> CHAR_UPPERCASE_Z then c + 32 else c) s"

lemma lower_drive_ascii: "lower_drive ascii_lower"
  by (auto simp: lower_drive_def ascii_lower_def isPathSeparator_def isPosixPathSeparator_def char_defs)

theorem win32_resolve_absolute_witness:
  "win32_resolve ascii_lower (str ''C:/w'') [str ''d:x'', str ''../y''] = str ''d:'' @ backslash @ str ''y'' \<and>
   win32_isAbsolute (str ''d:'' @ backslash @ str ''y'')"
proof -
  have h: "isWindowsDeviceRoot (Some 67)" "is_sep 47" by (simp_all add: isWindowsDeviceRoot_def isPathSeparator_def isPosixPathSeparator_def char_defs)
  have c: "67 # CHAR_COLON # 47 # [119] = str ''C:/w''" by code_simp
  have r: "win32_resolve ascii_lower (str ''C:/w'') [str ''d:x'', str ''../y''] = str ''d:'' @ backslash @ str ''y''" by code_simp
  show ?thesis using r win32_resolve_absolute [OF lower_drive_ascii h, of "[119]" "[str ''d:x'', str ''../y'']"] unfolding c r by blast
qed

end
