(* ===== verification/Js_Number.thy ===== *)
theory Js_Number
  imports Prelude "HOL-Library.Word"
begin

unbundle bit_operations_syntax

text \<open>
  Integers in JavaScript. Numbers that are integers, and \<^verbatim>\<open>BigInt\<close> values, are \<^typ>\<open>int\<close>; the bitwise
  operators convert their operands to 32 bits first.
\<close>

section \<open>Conversions and operators\<close>

definition to_uint32 :: "int \<Rightarrow> int" where
  "to_uint32 v = v mod 2 ^ 32"

definition to_int32 :: "int \<Rightarrow> int" where
  "to_int32 v = (let u = v mod 2 ^ 32 in if u \<ge> 2 ^ 31 then u - 2 ^ 32 else u)"

definition js_or :: "int \<Rightarrow> int \<Rightarrow> int" where
  "js_or a b = to_int32 a OR to_int32 b"

definition js_and :: "int \<Rightarrow> int \<Rightarrow> int" where
  "js_and a b = to_int32 a AND to_int32 b"

definition js_shl :: "int \<Rightarrow> nat \<Rightarrow> int" where
  "js_shl a n = to_int32 (to_int32 a * 2 ^ n)"

definition js_shr :: "int \<Rightarrow> nat \<Rightarrow> int" where
  "js_shr a n = to_int32 a div 2 ^ n"

definition js_ushr :: "int \<Rightarrow> nat \<Rightarrow> int" where
  "js_ushr a n = to_uint32 a div 2 ^ n"

section \<open>Lemmas\<close>

lemma to_int32_small [simp]: "0 \<le> v \<Longrightarrow> v < 2 ^ 31 \<Longrightarrow> to_int32 v = v"
  by (simp add: to_int32_def Let_def)

lemma to_int32_mod: "to_int32 v mod 2 ^ 32 = v mod 2 ^ 32"
  by (auto simp: to_int32_def Let_def minus_mod_self2)

lemma to_int32_mod_256: "to_int32 v mod 256 = v mod 256"
proof -
  have "to_int32 v mod 256 = to_int32 v mod 2 ^ 32 mod 256" by (simp add: mod_mod_cancel)
  also have "\<dots> = v mod 256" unfolding to_int32_mod by (simp add: mod_mod_cancel)
  finally show ?thesis .
qed

text \<open>Reading the \<open>n\<close> low bits of an unsigned value as two's complement.\<close>

definition as_signed :: "nat \<Rightarrow> int \<Rightarrow> int" where
  "as_signed n u = (if u \<ge> 2 ^ (n - 1) then u - 2 ^ n else u)"

lemma as_signed_bounds:
  assumes "0 < n" "0 \<le> u" "u < 2 ^ n"
  shows "- (2 ^ (n - 1)) \<le> as_signed n u" "as_signed n u < 2 ^ (n - 1)" "as_signed n u mod 2 ^ n = u"
proof -
  have p: "(2 :: int) ^ n = 2 * 2 ^ (n - 1)" using assms(1) by (cases n) simp_all
  show "- (2 ^ (n - 1)) \<le> as_signed n u" "as_signed n u < 2 ^ (n - 1)" "as_signed n u mod 2 ^ n = u"
    using assms p by (auto simp: as_signed_def minus_mod_self2)
qed

lemma as_signed_mod:
  assumes "0 < n" "- (2 ^ (n - 1)) \<le> v" "v < 2 ^ (n - 1)"
  shows "as_signed n (v mod 2 ^ n) = v"
proof -
  have p: "(2 :: int) ^ n = 2 * 2 ^ (n - 1)" using assms(1) by (cases n) simp_all
  show ?thesis
  proof (cases "0 \<le> v")
    case True
    then show ?thesis using assms p by (simp add: as_signed_def)
  next
    case False
    then have "v mod 2 ^ n = v + 2 ^ n" using assms p by (smt (verit) mod_add_self2 mod_pos_pos_trivial)
    then show ?thesis using False assms p by (simp add: as_signed_def)
  qed
qed

text \<open>\<^verbatim>\<open>val | (val & 2 ** (n - 1)) * k\<close> with a \<open>k\<close> that fills the bits above \<open>n\<close> is sign extension.\<close>

lemma or_minus_exp:
  fixes v :: int
  assumes "0 \<le> v" "v < 2 ^ n"
  shows "v OR (- (2 ^ n)) = v - 2 ^ n"
  using assms
proof (induction n arbitrary: v)
  case 0
  then show ?case by simp
next
  case (Suc n)
  have "- (2 ^ Suc n) div 2 = - (2 ^ n :: int)" by simp
  moreover have "v div 2 OR - (2 ^ n) = v div 2 - 2 ^ n" using Suc.prems by (intro Suc.IH) auto
  moreover have "of_bool (odd v) + 2 * (v div 2) = v" by (cases "odd v") (simp_all, presburger)
  ultimately show ?case unfolding or_int_rec [of v] by (simp add: algebra_simps)
qed

lemma and_exp_top:
  fixes v :: int
  assumes "0 \<le> v" "v < 2 ^ Suc n"
  shows "v AND 2 ^ n = (if v \<ge> 2 ^ n then 2 ^ n else 0)"
  using assms
proof (induction n arbitrary: v)
  case 0
  then have "v = 0 \<or> v = 1" by auto
  then show ?case by auto
next
  case (Suc n)
  have "v div 2 AND 2 ^ n = (if v div 2 \<ge> 2 ^ n then 2 ^ n else 0)" using Suc.prems by (intro Suc.IH) auto
  moreover have "v div 2 \<ge> 2 ^ n \<longleftrightarrow> v \<ge> 2 ^ Suc n" by auto
  ultimately show ?case unfolding and_int_rec [of v] by simp
qed

lemma sign_extend:
  assumes "0 \<le> v" "v < 2 ^ Suc n" "Suc n < 32" "k * 2 ^ n = 2 ^ 32 - 2 ^ Suc n"
  shows "js_or v (js_and v (2 ^ n) * k) = as_signed (Suc n) v"
proof -
  have pow: "(2 :: int) ^ Suc n \<le> 2 ^ 31" using assms(3) by (intro power_increasing) auto
  then have v: "to_int32 v = v" "to_int32 (2 ^ n) = 2 ^ n" using assms(1,2) by (simp_all)
  show ?thesis
  proof (cases "v \<ge> 2 ^ n")
    case True
    have "to_int32 (2 ^ 32 - 2 ^ Suc n) = - (2 ^ Suc n)"
    proof -
      have "(2 ^ 32 - 2 ^ Suc n) mod 2 ^ 32 = (2 ^ 32 - 2 ^ Suc n :: int)" using pow by (intro mod_pos_pos_trivial) auto
      moreover have "2 ^ 32 - 2 ^ Suc n \<ge> (2 ^ 31 :: int)" using pow by simp
      ultimately show ?thesis by (simp add: to_int32_def Let_def)
    qed
    then show ?thesis using True assms(1,2,4) and_exp_top [OF assms(1,2)] or_minus_exp [OF assms(1,2)]
      by (simp add: js_or_def js_and_def v as_signed_def mult.commute)
  next
    case False
    then show ?thesis using and_exp_top [OF assms(1,2)] by (simp add: js_or_def js_and_def v as_signed_def)
  qed
qed

lemmas sign_extend_8 = sign_extend [of _ 7 "0x1fffffe", simplified]
lemmas sign_extend_16 = sign_extend [of _ 15 "0x1fffe", simplified]
lemmas sign_extend_24 = sign_extend [of _ 23 "0x1fe", simplified]

end
