(* ===== verification/Buffer_Ints.thy ===== *)
theory Buffer_Ints
  imports Js_Number
begin

text \<open>
  Reading and writing integers in a node \<^verbatim>\<open>Buffer\<close> (\<^verbatim>\<open>ext/node/polyfills/internal/buffer.mjs\<close>). A buffer
  is the list of its bytes; an operation returns the error it throws or its result. Values and offsets
  are integers: a fraction or \<^verbatim>\<open>NaN\<close> is not in the model. A write returns the changed buffer and the
  offset after the last byte.
\<close>

section \<open>Errors and bounds\<close>

type_synonym byte = "8 word"
type_synonym buffer = "byte list"

text \<open>The ranges the messages name: \<^verbatim>\<open>>= a and <= b\<close>, \<^verbatim>\<open>>= 0 and < 2 ** n\<close>, \<^verbatim>\<open>>= -(2 ** n) and < 2 ** n\<close>.\<close>

datatype err_range = Range_between int int | Range_unsigned nat | Range_signed nat

datatype arg_name = Arg_value | Arg_offset | Arg_byteLength

datatype buffer_error =
    ERR_OUT_OF_RANGE arg_name err_range int
  | ERR_BUFFER_OUT_OF_BOUNDS
  | ERR_INVALID_ARG_TYPE arg_name
  | RangeError_size nat

text \<open>\<^verbatim>\<open>buf[i]\<close>, \<^term>\<open>None\<close> for \<^verbatim>\<open>undefined\<close>; an assignment to an index outside the buffer has no effect.\<close>

definition byte_at :: "buffer \<Rightarrow> int \<Rightarrow> int option" where
  "byte_at buf i = (if 0 \<le> i \<and> i < int (length buf) then Some (uint (buf ! nat i)) else None)"

definition set_byte :: "buffer \<Rightarrow> int \<Rightarrow> int \<Rightarrow> buffer" where
  "set_byte buf i v = (if 0 \<le> i \<and> i < int (length buf) then buf[nat i := word_of_int v] else buf)"

text \<open>\<^verbatim>\<open>type\<close> is given for \<^verbatim>\<open>byteLength\<close> only; without it the message is about the offset.\<close>

definition boundsError :: "int \<Rightarrow> int \<Rightarrow> arg_name option \<Rightarrow> buffer_error" where
  "boundsError v len type =
     (if len < 0 then ERR_BUFFER_OUT_OF_BOUNDS
      else ERR_OUT_OF_RANGE (case type of None \<Rightarrow> Arg_offset | Some t \<Rightarrow> t)
             (Range_between (if type = None then 0 else 1) len) v)"

definition checkBounds :: "buffer \<Rightarrow> int \<Rightarrow> nat \<Rightarrow> buffer_error option" where
  "checkBounds buf offset byteLength =
     (if byte_at buf offset = None \<or> byte_at buf (offset + int byteLength) = None
      then Some (boundsError offset (int (length buf) - (int byteLength + 1)) None)
      else None)"

definition checkInt :: "int \<Rightarrow> int \<Rightarrow> int \<Rightarrow> buffer \<Rightarrow> int \<Rightarrow> nat \<Rightarrow> buffer_error option" where
  "checkInt v mn mx buf offset byteLength =
     (if v > mx \<or> v < mn
      then Some (ERR_OUT_OF_RANGE Arg_value
             (if byteLength > 3
              then (if mn = 0 then Range_unsigned ((byteLength + 1) * 8) else Range_signed ((byteLength + 1) * 8 - 1))
              else Range_between mn mx) v)
      else checkBounds buf offset byteLength)"

definition checkIntBI :: "int \<Rightarrow> int \<Rightarrow> int \<Rightarrow> buffer \<Rightarrow> int \<Rightarrow> nat \<Rightarrow> buffer_error option" where
  "checkIntBI v mn mx buf offset byteLength2 =
     (if v > mx \<or> v < mn
      then Some (ERR_OUT_OF_RANGE Arg_value
             (if byteLength2 > 3
              then (if mn = 0 then Range_unsigned ((byteLength2 + 1) * 8) else Range_signed ((byteLength2 + 1) * 8 - 1))
              else Range_between mn mx) v)
      else checkBounds buf offset byteLength2)"

section \<open>Reading\<close>

text \<open>
  The common start of the read functions: the first and the last byte, and the error if one of them is
  not there. The bytes between them, \<^verbatim>\<open>buf[++offset]\<close>, are then in the buffer as well.
\<close>

definition checked_read :: "buffer \<Rightarrow> int \<Rightarrow> nat \<Rightarrow> (int \<Rightarrow> int \<Rightarrow> int) \<Rightarrow> buffer_error + int" where
  "checked_read buf offset k f =
     (case byte_at buf offset of
        None \<Rightarrow> Inl (boundsError offset (int (length buf) - int (k + 1)) None)
      | Some first \<Rightarrow>
          (case byte_at buf (offset + int k) of
             None \<Rightarrow> Inl (boundsError offset (int (length buf) - int (k + 1)) None)
           | Some last' \<Rightarrow> Inr (f first last')))"

definition mid :: "buffer \<Rightarrow> int \<Rightarrow> int" where
  "mid buf i = (case byte_at buf i of None \<Rightarrow> 0 | Some b \<Rightarrow> b)"

definition readUInt8 :: "buffer \<Rightarrow> int \<Rightarrow> buffer_error + int" where
  "readUInt8 buf offset =
     (case byte_at buf offset of
        None \<Rightarrow> Inl (boundsError offset (int (length buf) - 1) None)
      | Some val \<Rightarrow> Inr val)"

definition readInt8 :: "buffer \<Rightarrow> int \<Rightarrow> buffer_error + int" where
  "readInt8 buf offset =
     (case byte_at buf offset of
        None \<Rightarrow> Inl (boundsError offset (int (length buf) - 1) None)
      | Some val \<Rightarrow> Inr (js_or val (js_and val (2 ^ 7) * 0x1fffffe)))"

definition readUInt16LE :: "buffer \<Rightarrow> int \<Rightarrow> buffer_error + int" where
  "readUInt16LE buf offset =
     checked_read buf offset 1 (\<lambda>first last'.
       first + last' * 2 ^ 8)"

definition readUInt16BE :: "buffer \<Rightarrow> int \<Rightarrow> buffer_error + int" where
  "readUInt16BE buf offset =
     checked_read buf offset 1 (\<lambda>first last'.
       first * 2 ^ 8 + last')"

definition readUInt24LE :: "buffer \<Rightarrow> int \<Rightarrow> buffer_error + int" where
  "readUInt24LE buf offset =
     checked_read buf offset 2 (\<lambda>first last'.
       first + mid buf (offset + 1) * 2 ^ 8 + last' * 2 ^ 16)"

definition readUInt24BE :: "buffer \<Rightarrow> int \<Rightarrow> buffer_error + int" where
  "readUInt24BE buf offset =
     checked_read buf offset 2 (\<lambda>first last'.
       first * 2 ^ 16 + mid buf (offset + 1) * 2 ^ 8 + last')"

definition readUInt32LE :: "buffer \<Rightarrow> int \<Rightarrow> buffer_error + int" where
  "readUInt32LE buf offset =
     checked_read buf offset 3 (\<lambda>first last'.
       first + mid buf (offset + 1) * 2 ^ 8 + mid buf (offset + 2) * 2 ^ 16 + last' * 2 ^ 24)"

definition readUInt32BE :: "buffer \<Rightarrow> int \<Rightarrow> buffer_error + int" where
  "readUInt32BE buf offset =
     checked_read buf offset 3 (\<lambda>first last'.
       first * 2 ^ 24 + mid buf (offset + 1) * 2 ^ 16 + mid buf (offset + 2) * 2 ^ 8 + last')"

definition readUInt40LE :: "buffer \<Rightarrow> int \<Rightarrow> buffer_error + int" where
  "readUInt40LE buf offset =
     checked_read buf offset 4 (\<lambda>first last'.
       first + mid buf (offset + 1) * 2 ^ 8 + mid buf (offset + 2) * 2 ^ 16 + mid buf (offset + 3) * 2 ^ 24 + last' * 2 ^ 32)"

definition readUInt40BE :: "buffer \<Rightarrow> int \<Rightarrow> buffer_error + int" where
  "readUInt40BE buf offset =
     checked_read buf offset 4 (\<lambda>first last'.
       first * 2 ^ 32 + mid buf (offset + 1) * 2 ^ 24 + mid buf (offset + 2) * 2 ^ 16 + mid buf (offset + 3) * 2 ^ 8 + last')"

definition readUInt48LE :: "buffer \<Rightarrow> int \<Rightarrow> buffer_error + int" where
  "readUInt48LE buf offset =
     checked_read buf offset 5 (\<lambda>first last'.
       first + mid buf (offset + 1) * 2 ^ 8 + mid buf (offset + 2) * 2 ^ 16 + mid buf (offset + 3) * 2 ^ 24 +
         (mid buf (offset + 4) + last' * 2 ^ 8) * 2 ^ 32)"

definition readUInt48BE :: "buffer \<Rightarrow> int \<Rightarrow> buffer_error + int" where
  "readUInt48BE buf offset =
     checked_read buf offset 5 (\<lambda>first last'.
       (first * 2 ^ 8 + mid buf (offset + 1)) * 2 ^ 32 + mid buf (offset + 2) * 2 ^ 24 + mid buf (offset + 3) * 2 ^ 16 +
         mid buf (offset + 4) * 2 ^ 8 + last')"

definition readInt16LE :: "buffer \<Rightarrow> int \<Rightarrow> buffer_error + int" where
  "readInt16LE buf offset =
     checked_read buf offset 1 (\<lambda>first last'.
       let val = first + last' * 2 ^ 8 in js_or val (js_and val (2 ^ 15) * 0x1fffe))"

definition readInt16BE :: "buffer \<Rightarrow> int \<Rightarrow> buffer_error + int" where
  "readInt16BE buf offset =
     checked_read buf offset 1 (\<lambda>first last'.
       let val = first * 2 ^ 8 + last' in js_or val (js_and val (2 ^ 15) * 0x1fffe))"

definition readInt24LE :: "buffer \<Rightarrow> int \<Rightarrow> buffer_error + int" where
  "readInt24LE buf offset =
     checked_read buf offset 2 (\<lambda>first last'.
       let val = first + mid buf (offset + 1) * 2 ^ 8 + last' * 2 ^ 16 in js_or val (js_and val (2 ^ 23) * 0x1fe))"

definition readInt24BE :: "buffer \<Rightarrow> int \<Rightarrow> buffer_error + int" where
  "readInt24BE buf offset =
     checked_read buf offset 2 (\<lambda>first last'.
       let val = first * 2 ^ 16 + mid buf (offset + 1) * 2 ^ 8 + last' in js_or val (js_and val (2 ^ 23) * 0x1fe))"

definition readInt32LE :: "buffer \<Rightarrow> int \<Rightarrow> buffer_error + int" where
  "readInt32LE buf offset =
     checked_read buf offset 3 (\<lambda>first last'.
       first + mid buf (offset + 1) * 2 ^ 8 + mid buf (offset + 2) * 2 ^ 16 + js_shl last' 24)"

definition readInt32BE :: "buffer \<Rightarrow> int \<Rightarrow> buffer_error + int" where
  "readInt32BE buf offset =
     checked_read buf offset 3 (\<lambda>first last'.
       js_shl first 24 + mid buf (offset + 1) * 2 ^ 16 + mid buf (offset + 2) * 2 ^ 8 + last')"

definition readInt40LE :: "buffer \<Rightarrow> int \<Rightarrow> buffer_error + int" where
  "readInt40LE buf offset =
     checked_read buf offset 4 (\<lambda>first last'.
       js_or last' (js_and last' (2 ^ 7) * 0x1fffffe) * 2 ^ 32 + first + mid buf (offset + 1) * 2 ^ 8 +
         mid buf (offset + 2) * 2 ^ 16 + mid buf (offset + 3) * 2 ^ 24)"

definition readInt40BE :: "buffer \<Rightarrow> int \<Rightarrow> buffer_error + int" where
  "readInt40BE buf offset =
     checked_read buf offset 4 (\<lambda>first last'.
       js_or first (js_and first (2 ^ 7) * 0x1fffffe) * 2 ^ 32 + mid buf (offset + 1) * 2 ^ 24 +
         mid buf (offset + 2) * 2 ^ 16 + mid buf (offset + 3) * 2 ^ 8 + last')"

definition readInt48LE :: "buffer \<Rightarrow> int \<Rightarrow> buffer_error + int" where
  "readInt48LE buf offset =
     checked_read buf offset 5 (\<lambda>first last'.
       let val = mid buf (offset + 4) + last' * 2 ^ 8 in
       js_or val (js_and val (2 ^ 15) * 0x1fffe) * 2 ^ 32 + first + mid buf (offset + 1) * 2 ^ 8 + mid buf (offset + 2) * 2 ^ 16 +
         mid buf (offset + 3) * 2 ^ 24)"

definition readInt48BE :: "buffer \<Rightarrow> int \<Rightarrow> buffer_error + int" where
  "readInt48BE buf offset =
     checked_read buf offset 5 (\<lambda>first last'.
       let val = mid buf (offset + 1) + first * 2 ^ 8 in
       js_or val (js_and val (2 ^ 15) * 0x1fffe) * 2 ^ 32 + mid buf (offset + 2) * 2 ^ 24 + mid buf (offset + 3) * 2 ^ 16 +
         mid buf (offset + 4) * 2 ^ 8 + last')"

text \<open>The 64-bit reads start with \<^verbatim>\<open>offset = offset >>> 0\<close>.\<close>

definition readBigUInt64LE :: "buffer \<Rightarrow> int \<Rightarrow> buffer_error + int" where
  "readBigUInt64LE buf offset =
     (let offset = js_ushr offset 0 in
      checked_read buf offset 7 (\<lambda>first last'.
        let lo = first + mid buf (offset + 1) * 2 ^ 8 + mid buf (offset + 2) * 2 ^ 16 + mid buf (offset + 3) * 2 ^ 24;
            hi = mid buf (offset + 4) + mid buf (offset + 5) * 2 ^ 8 + mid buf (offset + 6) * 2 ^ 16 + last' * 2 ^ 24
        in lo + push_bit 32 hi))"

definition readBigUInt64BE :: "buffer \<Rightarrow> int \<Rightarrow> buffer_error + int" where
  "readBigUInt64BE buf offset =
     (let offset = js_ushr offset 0 in
      checked_read buf offset 7 (\<lambda>first last'.
        let hi = first * 2 ^ 24 + mid buf (offset + 1) * 2 ^ 16 + mid buf (offset + 2) * 2 ^ 8 + mid buf (offset + 3);
            lo = mid buf (offset + 4) * 2 ^ 24 + mid buf (offset + 5) * 2 ^ 16 + mid buf (offset + 6) * 2 ^ 8 + last'
        in push_bit 32 hi + lo))"

definition readBigInt64LE :: "buffer \<Rightarrow> int \<Rightarrow> buffer_error + int" where
  "readBigInt64LE buf offset =
     (let offset = js_ushr offset 0 in
      checked_read buf offset 7 (\<lambda>first last'.
        let val = mid buf (offset + 4) + mid buf (offset + 5) * 2 ^ 8 + mid buf (offset + 6) * 2 ^ 16 + js_shl last' 24
        in push_bit 32 val + (first + mid buf (offset + 1) * 2 ^ 8 + mid buf (offset + 2) * 2 ^ 16 + mid buf (offset + 3) * 2 ^ 24)))"

definition readBigInt64BE :: "buffer \<Rightarrow> int \<Rightarrow> buffer_error + int" where
  "readBigInt64BE buf offset =
     (let offset = js_ushr offset 0 in
      checked_read buf offset 7 (\<lambda>first last'.
        let val = js_shl first 24 + mid buf (offset + 1) * 2 ^ 16 + mid buf (offset + 2) * 2 ^ 8 + mid buf (offset + 3)
        in push_bit 32 val + (mid buf (offset + 4) * 2 ^ 24 + mid buf (offset + 5) * 2 ^ 16 + mid buf (offset + 6) * 2 ^ 8 + last')))"

text \<open>The functions that take the number of bytes; an \<^verbatim>\<open>undefined\<close> offset is an error of its own.\<close>

definition readUIntLE :: "buffer \<Rightarrow> int option \<Rightarrow> int \<Rightarrow> buffer_error + int" where
  "readUIntLE buf offset byteLength =
     (case offset of
        None \<Rightarrow> Inl (ERR_INVALID_ARG_TYPE Arg_offset)
      | Some offset \<Rightarrow>
          if byteLength = 6 then readUInt48LE buf offset
          else if byteLength = 5 then readUInt40LE buf offset
          else if byteLength = 3 then readUInt24LE buf offset
          else if byteLength = 4 then readUInt32LE buf offset
          else if byteLength = 2 then readUInt16LE buf offset
          else if byteLength = 1 then readUInt8 buf offset
          else Inl (boundsError byteLength 6 (Some Arg_byteLength)))"

definition readUIntBE :: "buffer \<Rightarrow> int option \<Rightarrow> int \<Rightarrow> buffer_error + int" where
  "readUIntBE buf offset byteLength =
     (case offset of
        None \<Rightarrow> Inl (ERR_INVALID_ARG_TYPE Arg_offset)
      | Some offset \<Rightarrow>
          if byteLength = 6 then readUInt48BE buf offset
          else if byteLength = 5 then readUInt40BE buf offset
          else if byteLength = 3 then readUInt24BE buf offset
          else if byteLength = 4 then readUInt32BE buf offset
          else if byteLength = 2 then readUInt16BE buf offset
          else if byteLength = 1 then readUInt8 buf offset
          else Inl (boundsError byteLength 6 (Some Arg_byteLength)))"

definition readIntLE :: "buffer \<Rightarrow> int option \<Rightarrow> int \<Rightarrow> buffer_error + int" where
  "readIntLE buf offset byteLength =
     (case offset of
        None \<Rightarrow> Inl (ERR_INVALID_ARG_TYPE Arg_offset)
      | Some offset \<Rightarrow>
          if byteLength = 6 then readInt48LE buf offset
          else if byteLength = 5 then readInt40LE buf offset
          else if byteLength = 3 then readInt24LE buf offset
          else if byteLength = 4 then readInt32LE buf offset
          else if byteLength = 2 then readInt16LE buf offset
          else if byteLength = 1 then readInt8 buf offset
          else Inl (boundsError byteLength 6 (Some Arg_byteLength)))"

definition readIntBE :: "buffer \<Rightarrow> int option \<Rightarrow> int \<Rightarrow> buffer_error + int" where
  "readIntBE buf offset byteLength =
     (case offset of
        None \<Rightarrow> Inl (ERR_INVALID_ARG_TYPE Arg_offset)
      | Some offset \<Rightarrow>
          if byteLength = 6 then readInt48BE buf offset
          else if byteLength = 5 then readInt40BE buf offset
          else if byteLength = 3 then readInt24BE buf offset
          else if byteLength = 4 then readInt32BE buf offset
          else if byteLength = 2 then readInt16BE buf offset
          else if byteLength = 1 then readInt8 buf offset
          else Inl (boundsError byteLength 6 (Some Arg_byteLength)))"

section \<open>Writing\<close>

definition writeU_Int8 :: "buffer \<Rightarrow> int \<Rightarrow> int \<Rightarrow> int \<Rightarrow> int \<Rightarrow> buffer_error + buffer \<times> int" where
  "writeU_Int8 buf val offset mn mx =
     (if val > mx \<or> val < mn then Inl (ERR_OUT_OF_RANGE Arg_value (Range_between mn mx) val)
      else if byte_at buf offset = None then Inl (boundsError offset (int (length buf) - 1) None)
      else Inr (set_byte buf offset val, offset + 1))"

definition writeU_Int16LE :: "buffer \<Rightarrow> int \<Rightarrow> int \<Rightarrow> int \<Rightarrow> int \<Rightarrow> buffer_error + buffer \<times> int" where
  "writeU_Int16LE buf val offset mn mx =
     (case checkInt val mn mx buf offset 1 of
        Some e \<Rightarrow> Inl e
      | None \<Rightarrow>
          (let buf = set_byte buf offset val;
               buf = set_byte buf (offset + 1) (js_ushr val 8)
           in Inr (buf, offset + 2)))"

definition writeU_Int16BE :: "buffer \<Rightarrow> int \<Rightarrow> int \<Rightarrow> int \<Rightarrow> int \<Rightarrow> buffer_error + buffer \<times> int" where
  "writeU_Int16BE buf val offset mn mx =
     (case checkInt val mn mx buf offset 1 of
        Some e \<Rightarrow> Inl e
      | None \<Rightarrow>
          (let buf = set_byte buf offset (js_ushr val 8);
               buf = set_byte buf (offset + 1) val
           in Inr (buf, offset + 2)))"

definition writeU_Int24LE :: "buffer \<Rightarrow> int \<Rightarrow> int \<Rightarrow> int \<Rightarrow> int \<Rightarrow> buffer_error + buffer \<times> int" where
  "writeU_Int24LE buf val offset mn mx =
     (case checkInt val mn mx buf offset 2 of
        Some e \<Rightarrow> Inl e
      | None \<Rightarrow>
          (let buf = set_byte buf offset val;
               val = js_ushr val 8;
               buf = set_byte buf (offset + 1) val;
               val = js_ushr val 8;
               buf = set_byte buf (offset + 2) val
           in Inr (buf, offset + 3)))"

definition writeU_Int24BE :: "buffer \<Rightarrow> int \<Rightarrow> int \<Rightarrow> int \<Rightarrow> int \<Rightarrow> buffer_error + buffer \<times> int" where
  "writeU_Int24BE buf val offset mn mx =
     (case checkInt val mn mx buf offset 2 of
        Some e \<Rightarrow> Inl e
      | None \<Rightarrow>
          (let buf = set_byte buf (offset + 2) val;
               val = js_ushr val 8;
               buf = set_byte buf (offset + 1) val;
               val = js_ushr val 8;
               buf = set_byte buf offset val
           in Inr (buf, offset + 3)))"

definition writeU_Int32LE :: "buffer \<Rightarrow> int \<Rightarrow> int \<Rightarrow> int \<Rightarrow> int \<Rightarrow> buffer_error + buffer \<times> int" where
  "writeU_Int32LE buf val offset mn mx =
     (case checkInt val mn mx buf offset 3 of
        Some e \<Rightarrow> Inl e
      | None \<Rightarrow>
          (let buf = set_byte buf offset val;
               val = js_ushr val 8;
               buf = set_byte buf (offset + 1) val;
               val = js_ushr val 8;
               buf = set_byte buf (offset + 2) val;
               val = js_ushr val 8;
               buf = set_byte buf (offset + 3) val
           in Inr (buf, offset + 4)))"

definition writeU_Int32BE :: "buffer \<Rightarrow> int \<Rightarrow> int \<Rightarrow> int \<Rightarrow> int \<Rightarrow> buffer_error + buffer \<times> int" where
  "writeU_Int32BE buf val offset mn mx =
     (case checkInt val mn mx buf offset 3 of
        Some e \<Rightarrow> Inl e
      | None \<Rightarrow>
          (let buf = set_byte buf (offset + 3) val;
               val = js_ushr val 8;
               buf = set_byte buf (offset + 2) val;
               val = js_ushr val 8;
               buf = set_byte buf (offset + 1) val;
               val = js_ushr val 8;
               buf = set_byte buf offset val
           in Inr (buf, offset + 4)))"

definition writeUInt32LE_unsigned :: "buffer \<Rightarrow> int \<Rightarrow> int \<Rightarrow> int \<Rightarrow> int \<Rightarrow> buffer_error + buffer \<times> int" where
  "writeUInt32LE_unsigned buf val offset mn mx =
     (case checkInt val mn mx buf offset 3 of
        Some e \<Rightarrow> Inl e
      | None \<Rightarrow>
          (let buf = set_byte buf offset val;
               val = js_ushr val 8;
               buf = set_byte buf (offset + 1) val;
               val = js_ushr val 8;
               buf = set_byte buf (offset + 2) val;
               val = js_ushr val 8;
               buf = set_byte buf (offset + 3) val
           in Inr (buf, offset + 4)))"

definition writeUInt32BE_unsigned :: "buffer \<Rightarrow> int \<Rightarrow> int \<Rightarrow> int \<Rightarrow> int \<Rightarrow> buffer_error + buffer \<times> int" where
  "writeUInt32BE_unsigned buf val offset mn mx =
     (case checkInt val mn mx buf offset 3 of
        Some e \<Rightarrow> Inl e
      | None \<Rightarrow>
          (let buf = set_byte buf (offset + 3) val;
               val = js_ushr val 8;
               buf = set_byte buf (offset + 2) val;
               val = js_ushr val 8;
               buf = set_byte buf (offset + 1) val;
               val = js_ushr val 8;
               buf = set_byte buf offset val
           in Inr (buf, offset + 4)))"

text \<open>\<^verbatim>\<open>Math.floor(value * 2 ** -32)\<close> is \<^term>\<open>val div 2 ^ 32\<close>.\<close>

definition writeU_Int40LE :: "buffer \<Rightarrow> int \<Rightarrow> int \<Rightarrow> int \<Rightarrow> int \<Rightarrow> buffer_error + buffer \<times> int" where
  "writeU_Int40LE buf val offset mn mx =
     (case checkInt val mn mx buf offset 4 of
        Some e \<Rightarrow> Inl e
      | None \<Rightarrow>
          (let newVal = val;
               buf = set_byte buf offset val;
               val = js_ushr val 8;
               buf = set_byte buf (offset + 1) val;
               val = js_ushr val 8;
               buf = set_byte buf (offset + 2) val;
               val = js_ushr val 8;
               buf = set_byte buf (offset + 3) val;
               buf = set_byte buf (offset + 4) (newVal div 2 ^ 32)
           in Inr (buf, offset + 5)))"

definition writeU_Int40BE :: "buffer \<Rightarrow> int \<Rightarrow> int \<Rightarrow> int \<Rightarrow> int \<Rightarrow> buffer_error + buffer \<times> int" where
  "writeU_Int40BE buf val offset mn mx =
     (case checkInt val mn mx buf offset 4 of
        Some e \<Rightarrow> Inl e
      | None \<Rightarrow>
          (let buf = set_byte buf offset (val div 2 ^ 32);
               offset = offset + 1;
               buf = set_byte buf (offset + 3) val;
               val = js_ushr val 8;
               buf = set_byte buf (offset + 2) val;
               val = js_ushr val 8;
               buf = set_byte buf (offset + 1) val;
               val = js_ushr val 8;
               buf = set_byte buf offset val
           in Inr (buf, offset + 4)))"

definition writeU_Int48LE :: "buffer \<Rightarrow> int \<Rightarrow> int \<Rightarrow> int \<Rightarrow> int \<Rightarrow> buffer_error + buffer \<times> int" where
  "writeU_Int48LE buf val offset mn mx =
     (case checkInt val mn mx buf offset 5 of
        Some e \<Rightarrow> Inl e
      | None \<Rightarrow>
          (let newVal = val div 2 ^ 32;
               buf = set_byte buf offset val;
               val = js_ushr val 8;
               buf = set_byte buf (offset + 1) val;
               val = js_ushr val 8;
               buf = set_byte buf (offset + 2) val;
               val = js_ushr val 8;
               buf = set_byte buf (offset + 3) val;
               buf = set_byte buf (offset + 4) newVal;
               buf = set_byte buf (offset + 5) (js_ushr newVal 8)
           in Inr (buf, offset + 6)))"

definition writeU_Int48BE :: "buffer \<Rightarrow> int \<Rightarrow> int \<Rightarrow> int \<Rightarrow> int \<Rightarrow> buffer_error + buffer \<times> int" where
  "writeU_Int48BE buf val offset mn mx =
     (case checkInt val mn mx buf offset 5 of
        Some e \<Rightarrow> Inl e
      | None \<Rightarrow>
          (let newVal = val div 2 ^ 32;
               buf = set_byte buf offset (js_ushr newVal 8);
               buf = set_byte buf (offset + 1) newVal;
               offset = offset + 2;
               buf = set_byte buf (offset + 3) val;
               val = js_ushr val 8;
               buf = set_byte buf (offset + 2) val;
               val = js_ushr val 8;
               buf = set_byte buf (offset + 1) val;
               val = js_ushr val 8;
               buf = set_byte buf offset val
           in Inr (buf, offset + 4)))"

definition wrtBigUInt64LE :: "buffer \<Rightarrow> int \<Rightarrow> int \<Rightarrow> int \<Rightarrow> int \<Rightarrow> buffer_error + buffer \<times> int" where
  "wrtBigUInt64LE buf val offset mn mx =
     (case checkIntBI val mn mx buf offset 7 of
        Some e \<Rightarrow> Inl e
      | None \<Rightarrow>
          (let lo = val AND 4294967295;
               buf = set_byte buf offset lo;
               lo = js_shr lo 8;
               buf = set_byte buf (offset + 1) lo;
               lo = js_shr lo 8;
               buf = set_byte buf (offset + 2) lo;
               lo = js_shr lo 8;
               buf = set_byte buf (offset + 3) lo;
               hi = drop_bit 32 val AND 4294967295;
               buf = set_byte buf (offset + 4) hi;
               hi = js_shr hi 8;
               buf = set_byte buf (offset + 5) hi;
               hi = js_shr hi 8;
               buf = set_byte buf (offset + 6) hi;
               hi = js_shr hi 8;
               buf = set_byte buf (offset + 7) hi
           in Inr (buf, offset + 8)))"

definition wrtBigUInt64BE :: "buffer \<Rightarrow> int \<Rightarrow> int \<Rightarrow> int \<Rightarrow> int \<Rightarrow> buffer_error + buffer \<times> int" where
  "wrtBigUInt64BE buf val offset mn mx =
     (case checkIntBI val mn mx buf offset 7 of
        Some e \<Rightarrow> Inl e
      | None \<Rightarrow>
          (let lo = val AND 4294967295;
               buf = set_byte buf (offset + 7) lo;
               lo = js_shr lo 8;
               buf = set_byte buf (offset + 6) lo;
               lo = js_shr lo 8;
               buf = set_byte buf (offset + 5) lo;
               lo = js_shr lo 8;
               buf = set_byte buf (offset + 4) lo;
               hi = drop_bit 32 val AND 4294967295;
               buf = set_byte buf (offset + 3) hi;
               hi = js_shr hi 8;
               buf = set_byte buf (offset + 2) hi;
               hi = js_shr hi 8;
               buf = set_byte buf (offset + 1) hi;
               hi = js_shr hi 8;
               buf = set_byte buf offset hi
           in Inr (buf, offset + 8)))"

definition writeUInt8 :: "buffer \<Rightarrow> int \<Rightarrow> int \<Rightarrow> buffer_error + buffer \<times> int" where
  "writeUInt8 buf val offset = writeU_Int8 buf val offset 0 0xff"

definition writeInt8 :: "buffer \<Rightarrow> int \<Rightarrow> int \<Rightarrow> buffer_error + buffer \<times> int" where
  "writeInt8 buf val offset = writeU_Int8 buf val offset (-0x80) 0x7f"

definition writeUInt16LE :: "buffer \<Rightarrow> int \<Rightarrow> int \<Rightarrow> buffer_error + buffer \<times> int" where
  "writeUInt16LE buf val offset = writeU_Int16LE buf val offset 0 0xffff"

definition writeInt16LE :: "buffer \<Rightarrow> int \<Rightarrow> int \<Rightarrow> buffer_error + buffer \<times> int" where
  "writeInt16LE buf val offset = writeU_Int16LE buf val offset (-0x8000) 0x7fff"

definition writeUInt32LE :: "buffer \<Rightarrow> int \<Rightarrow> int \<Rightarrow> buffer_error + buffer \<times> int" where
  "writeUInt32LE buf val offset = writeUInt32LE_unsigned buf val offset 0 0xffffffff"

definition writeInt32LE :: "buffer \<Rightarrow> int \<Rightarrow> int \<Rightarrow> buffer_error + buffer \<times> int" where
  "writeInt32LE buf val offset = writeU_Int32LE buf val offset (-0x80000000) 0x7fffffff"

definition writeBigUInt64LE :: "buffer \<Rightarrow> int \<Rightarrow> int \<Rightarrow> buffer_error + buffer \<times> int" where
  "writeBigUInt64LE buf val offset = wrtBigUInt64LE buf val offset 0 0xffffffffffffffff"

definition writeBigInt64LE :: "buffer \<Rightarrow> int \<Rightarrow> int \<Rightarrow> buffer_error + buffer \<times> int" where
  "writeBigInt64LE buf val offset = wrtBigUInt64LE buf val offset (-0x8000000000000000) 0x7fffffffffffffff"

definition writeUInt16BE :: "buffer \<Rightarrow> int \<Rightarrow> int \<Rightarrow> buffer_error + buffer \<times> int" where
  "writeUInt16BE buf val offset = writeU_Int16BE buf val offset 0 0xffff"

definition writeInt16BE :: "buffer \<Rightarrow> int \<Rightarrow> int \<Rightarrow> buffer_error + buffer \<times> int" where
  "writeInt16BE buf val offset = writeU_Int16BE buf val offset (-0x8000) 0x7fff"

definition writeUInt32BE :: "buffer \<Rightarrow> int \<Rightarrow> int \<Rightarrow> buffer_error + buffer \<times> int" where
  "writeUInt32BE buf val offset = writeUInt32BE_unsigned buf val offset 0 0xffffffff"

definition writeInt32BE :: "buffer \<Rightarrow> int \<Rightarrow> int \<Rightarrow> buffer_error + buffer \<times> int" where
  "writeInt32BE buf val offset = writeU_Int32BE buf val offset (-0x80000000) 0x7fffffff"

definition writeBigUInt64BE :: "buffer \<Rightarrow> int \<Rightarrow> int \<Rightarrow> buffer_error + buffer \<times> int" where
  "writeBigUInt64BE buf val offset = wrtBigUInt64BE buf val offset 0 0xffffffffffffffff"

definition writeBigInt64BE :: "buffer \<Rightarrow> int \<Rightarrow> int \<Rightarrow> buffer_error + buffer \<times> int" where
  "writeBigInt64BE buf val offset = wrtBigUInt64BE buf val offset (-0x8000000000000000) 0x7fffffffffffffff"

definition writeUIntLE :: "buffer \<Rightarrow> int \<Rightarrow> int \<Rightarrow> int \<Rightarrow> buffer_error + buffer \<times> int" where
  "writeUIntLE buf val offset byteLength =
     (if byteLength = 6 then writeU_Int48LE buf val offset 0 0xffffffffffff
      else if byteLength = 5 then writeU_Int40LE buf val offset 0 0xffffffffff
      else if byteLength = 3 then writeU_Int24LE buf val offset 0 0xffffff
      else if byteLength = 4 then writeU_Int32LE buf val offset 0 0xffffffff
      else if byteLength = 2 then writeU_Int16LE buf val offset 0 0xffff
      else if byteLength = 1 then writeU_Int8 buf val offset 0 0xff
      else Inl (boundsError byteLength 6 (Some Arg_byteLength)))"

definition writeUIntBE :: "buffer \<Rightarrow> int \<Rightarrow> int \<Rightarrow> int \<Rightarrow> buffer_error + buffer \<times> int" where
  "writeUIntBE buf val offset byteLength =
     (if byteLength = 6 then writeU_Int48BE buf val offset 0 0xffffffffffff
      else if byteLength = 5 then writeU_Int40BE buf val offset 0 0xffffffffff
      else if byteLength = 3 then writeU_Int24BE buf val offset 0 0xffffff
      else if byteLength = 4 then writeU_Int32BE buf val offset 0 0xffffffff
      else if byteLength = 2 then writeU_Int16BE buf val offset 0 0xffff
      else if byteLength = 1 then writeU_Int8 buf val offset 0 0xff
      else Inl (boundsError byteLength 6 (Some Arg_byteLength)))"

definition writeIntLE :: "buffer \<Rightarrow> int \<Rightarrow> int \<Rightarrow> int \<Rightarrow> buffer_error + buffer \<times> int" where
  "writeIntLE buf val offset byteLength =
     (if byteLength = 6 then writeU_Int48LE buf val offset (-0x800000000000) 0x7fffffffffff
      else if byteLength = 5 then writeU_Int40LE buf val offset (-0x8000000000) 0x7fffffffff
      else if byteLength = 3 then writeU_Int24LE buf val offset (-0x800000) 0x7fffff
      else if byteLength = 4 then writeU_Int32LE buf val offset (-0x80000000) 0x7fffffff
      else if byteLength = 2 then writeU_Int16LE buf val offset (-0x8000) 0x7fff
      else if byteLength = 1 then writeU_Int8 buf val offset (-0x80) 0x7f
      else Inl (boundsError byteLength 6 (Some Arg_byteLength)))"

definition writeIntBE :: "buffer \<Rightarrow> int \<Rightarrow> int \<Rightarrow> int \<Rightarrow> buffer_error + buffer \<times> int" where
  "writeIntBE buf val offset byteLength =
     (if byteLength = 6 then writeU_Int48BE buf val offset (-0x800000000000) 0x7fffffffffff
      else if byteLength = 5 then writeU_Int40BE buf val offset (-0x8000000000) 0x7fffffffff
      else if byteLength = 3 then writeU_Int24BE buf val offset (-0x800000) 0x7fffff
      else if byteLength = 4 then writeU_Int32BE buf val offset (-0x80000000) 0x7fffffff
      else if byteLength = 2 then writeU_Int16BE buf val offset (-0x8000) 0x7fff
      else if byteLength = 1 then writeU_Int8 buf val offset (-0x80) 0x7f
      else Inl (boundsError byteLength 6 (Some Arg_byteLength)))"

section \<open>Swapping\<close>

definition swap :: "buffer \<Rightarrow> nat \<Rightarrow> nat \<Rightarrow> buffer" where
  "swap b n m = (let i = b ! n; b = b[n := b ! m] in b[m := i])"

text \<open>The loops from index \<open>i\<close> in steps of the width, with the length of the buffer as measure.\<close>

function swap_loop :: "nat \<Rightarrow> (buffer \<Rightarrow> nat \<Rightarrow> buffer) \<Rightarrow> buffer \<Rightarrow> nat \<Rightarrow> nat \<Rightarrow> buffer" where
  "swap_loop step body b i len =
     (if i < len \<and> 0 < step then swap_loop step body (body b i) (i + step) len else b)"
  by pat_completeness auto
termination by (relation "measure (\<lambda>(s, f, b, i, n). n - i)") auto

declare swap_loop.simps [simp del]

definition swap16 :: "buffer \<Rightarrow> buffer_error + buffer" where
  "swap16 b =
     (if length b mod 2 \<noteq> 0 then Inl (RangeError_size 16)
      else Inr (swap_loop 2 (\<lambda>b i. swap b i (i + 1)) b 0 (length b)))"

definition swap32 :: "buffer \<Rightarrow> buffer_error + buffer" where
  "swap32 b =
     (if length b mod 4 \<noteq> 0 then Inl (RangeError_size 32)
      else Inr (swap_loop 4 (\<lambda>b i. swap (swap b i (i + 3)) (i + 1) (i + 2)) b 0 (length b)))"

definition swap64 :: "buffer \<Rightarrow> buffer_error + buffer" where
  "swap64 b =
     (if length b mod 8 \<noteq> 0 then Inl (RangeError_size 64)
      else Inr (swap_loop 8
             (\<lambda>b i. swap (swap (swap (swap b i (i + 7)) (i + 1) (i + 6)) (i + 2) (i + 5)) (i + 3) (i + 4))
             b 0 (length b)))"

end
