(* ===== verification/Buffer_Codec.thy ===== *)
theory Buffer_Codec
  imports Buffer_Ints
begin

text \<open>
  What reading and writing integers in a buffer means: the bytes of a value in either order, the value
  of a list of bytes, and the contract of a pair of functions that read and write values of one width.
  The consequences of the contract (round trips, what a write leaves alone, the ranges) are proved once
  here; \<^verbatim>\<open>Buffer_Properties\<close> shows that each pair of the source meets the contract.
\<close>

section \<open>Bytes and values\<close>

primrec le_value :: "byte list \<Rightarrow> int" where
  "le_value [] = 0"
| "le_value (b # bs) = uint b + 256 * le_value bs"

primrec le_bytes :: "nat \<Rightarrow> int \<Rightarrow> byte list" where
  "le_bytes 0 v = []"
| "le_bytes (Suc n) v = word_of_int v # le_bytes n (v div 256)"

definition value_of :: "bool \<Rightarrow> bool \<Rightarrow> byte list \<Rightarrow> int" where
  "value_of little sg bs =
     (let u = le_value (if little then bs else rev bs) in if sg then as_signed (8 * length bs) u else u)"

definition bytes_of :: "bool \<Rightarrow> nat \<Rightarrow> int \<Rightarrow> byte list" where
  "bytes_of little n v = (if little then le_bytes n v else rev (le_bytes n v))"

definition least :: "bool \<Rightarrow> nat \<Rightarrow> int" where
  "least sg n = (if sg then - (2 ^ (8 * n - 1)) else 0)"

definition greatest :: "bool \<Rightarrow> nat \<Rightarrow> int" where
  "greatest sg n = (if sg then 2 ^ (8 * n - 1) - 1 else 2 ^ (8 * n) - 1)"

lemma uint_byte: "0 \<le> uint (b :: byte)" "uint (b :: byte) < 256"
  using uint_bounded [of b] by simp_all

lemma le_value_bounds: "0 \<le> le_value bs \<and> le_value bs < 2 ^ (8 * length bs)"
proof (induction bs)
  case (Cons b bs)
  have "(2 :: int) ^ (8 * length (b # bs)) = 256 * 2 ^ (8 * length bs)" by (simp add: power_add)
  then show ?case using Cons uint_byte [of b] by simp
qed simp

lemma length_le_bytes [simp]: "length (le_bytes n v) = n"
  by (induction n arbitrary: v) simp_all

lemma uint_word_of_int_byte: "uint (word_of_int v :: byte) = v mod 256"
  by (simp add: uint_word_of_int)

lemma le_value_bytes: "le_value (le_bytes n v) = v mod 2 ^ (8 * n)"
proof (induction n arbitrary: v)
  case (Suc n)
  have "v mod (256 * 2 ^ (8 * n)) = 256 * (v div 256 mod 2 ^ (8 * n)) + v mod 256"
    by (simp add: mod_mult2_eq' zmod_zmult2_eq)
  then show ?case using Suc by (simp add: uint_word_of_int_byte power_add)
qed simp

lemma le_bytes_value: "le_bytes (length bs) (le_value bs) = bs"
proof (induction bs)
  case (Cons b bs)
  have "(uint b + 256 * le_value bs) div 256 = le_value bs" using uint_byte [of b] by simp
  moreover have "(word_of_int (uint b + 256 * le_value bs) :: byte) = b"
    unfolding word_uint_eq_iff uint_word_of_int_byte using uint_byte [of b] by simp
  ultimately show ?case using Cons by simp
qed simp

lemma le_bytes_mod: "le_bytes n (v mod 2 ^ (8 * n)) = le_bytes n v"
  using le_bytes_value [of "le_bytes n v"] by (simp add: le_value_bytes)

text \<open>The laws of the encoding, for every width, byte order and signedness.\<close>

lemma length_bytes_of [simp]: "length (bytes_of little n v) = n"
  by (simp add: bytes_of_def)

lemma value_of_bytes_of:
  assumes "0 < n" "least sg n \<le> v" "v \<le> greatest sg n"
  shows "value_of little sg (bytes_of little n v) = v"
proof -
  have "value_of little sg (bytes_of little n v) = (if sg then as_signed (8 * n) (v mod 2 ^ (8 * n)) else v mod 2 ^ (8 * n))"
    by (simp add: value_of_def bytes_of_def le_value_bytes)
  also have "\<dots> = v" using assms by (auto simp: least_def greatest_def intro!: as_signed_mod)
  finally show ?thesis .
qed

lemma bytes_of_value_of:
  assumes "0 < length bs"
  shows "bytes_of little (length bs) (value_of little sg bs) = bs"
proof -
  let ?cs = "if little then bs else rev bs"
  have "as_signed (8 * length bs) (le_value ?cs) mod 2 ^ (8 * length bs) = le_value ?cs"
    using assms le_value_bounds [of ?cs] by (intro as_signed_bounds(3)) (simp_all split: if_splits)
  then have "le_bytes (length bs) (as_signed (8 * length bs) (le_value ?cs)) = le_bytes (length bs) (le_value ?cs)"
    using le_bytes_mod [of "length bs" "as_signed (8 * length bs) (le_value ?cs)"] by simp
  then have "le_bytes (length bs) (value_of little sg bs) = le_bytes (length ?cs) (le_value ?cs)"
    by (simp add: value_of_def Let_def)
  then have "le_bytes (length bs) (value_of little sg bs) = ?cs" by (simp only: le_bytes_value)
  then show ?thesis by (cases little) (simp_all add: bytes_of_def)
qed

lemma value_of_bounds:
  assumes "0 < length bs"
  shows "least sg (length bs) \<le> value_of little sg bs" "value_of little sg bs \<le> greatest sg (length bs)"
  using assms as_signed_bounds(1,2) [of "8 * length bs" "le_value (if little then bs else rev bs)"]
    le_value_bounds [of "if little then bs else rev bs"]
  by (auto simp: value_of_def least_def greatest_def Let_def)

section \<open>The contract of a pair of access functions\<close>

definition in_bounds :: "buffer \<Rightarrow> int \<Rightarrow> nat \<Rightarrow> bool" where
  "in_bounds buf off n \<longleftrightarrow> 0 \<le> off \<and> off + int n \<le> int (length buf)"

definition range_error :: "buffer \<Rightarrow> int \<Rightarrow> nat \<Rightarrow> buffer_error" where
  "range_error buf off n =
     (if length buf < n then ERR_BUFFER_OUT_OF_BOUNDS
      else ERR_OUT_OF_RANGE Arg_offset (Range_between 0 (int (length buf) - int n)) off)"

lemma in_bounds_split:
  assumes "in_bounds buf off n"
  obtains pre bs post where "buf = pre @ bs @ post" "length bs = n" "off = int (length pre)"
proof
  show "buf = take (nat off) buf @ take n (drop (nat off) buf) @ drop (nat off + n) buf"
    by (metis append_take_drop_id drop_drop add.commute)
qed (use assms in \<open>auto simp: in_bounds_def min_def\<close>)

lemma in_bounds_append [simp]: "length bs = n \<Longrightarrow> in_bounds (pre @ bs @ post) (int (length pre)) n"
  by (simp add: in_bounds_def)

locale int_codec =
  fixes n :: nat and little :: bool and sg :: bool
    and offset_ok :: "int \<Rightarrow> bool"
    and rd :: "buffer \<Rightarrow> int \<Rightarrow> buffer_error + int"
    and wr :: "buffer \<Rightarrow> int \<Rightarrow> int \<Rightarrow> buffer_error + buffer \<times> int"
  assumes width: "0 < n"
    and rd_in: "length bs = n \<Longrightarrow> offset_ok (int (length pre)) \<Longrightarrow>
      rd (pre @ bs @ post) (int (length pre)) = Inr (value_of little sg bs)"
    and rd_out: "\<not> in_bounds buf off n \<Longrightarrow> offset_ok off \<Longrightarrow> rd buf off = Inl (range_error buf off n)"
    and wr_in: "length bs = n \<Longrightarrow> least sg n \<le> v \<Longrightarrow> v \<le> greatest sg n \<Longrightarrow>
      wr (pre @ bs @ post) v (int (length pre)) = Inr (pre @ bytes_of little n v @ post, int (length pre) + int n)"
    and wr_out: "least sg n \<le> v \<Longrightarrow> v \<le> greatest sg n \<Longrightarrow> \<not> in_bounds buf off n \<Longrightarrow> wr buf v off = Inl (range_error buf off n)"
    and wr_value: "v < least sg n \<or> greatest sg n < v \<Longrightarrow> \<exists>r. wr buf v off = Inl (ERR_OUT_OF_RANGE Arg_value r v)"
begin

text \<open>A write succeeds exactly if the value fits the width and the bytes are in the buffer.\<close>

lemma write_succeeds_iff:
  "(\<exists>r. wr buf v off = Inr r) \<longleftrightarrow> least sg n \<le> v \<and> v \<le> greatest sg n \<and> in_bounds buf off n"
proof
  assume "\<exists>r. wr buf v off = Inr r"
  then show "least sg n \<le> v \<and> v \<le> greatest sg n \<and> in_bounds buf off n"
    using wr_value [of v buf off] wr_out [of v buf off] by fastforce
next
  assume a: "least sg n \<le> v \<and> v \<le> greatest sg n \<and> in_bounds buf off n"
  then obtain pre bs post where "buf = pre @ bs @ post" "length bs = n" "off = int (length pre)"
    using in_bounds_split by blast
  then show "\<exists>r. wr buf v off = Inr r" using wr_in a by blast
qed

lemma write_form:
  assumes "wr buf v off = Inr (buf', off')"
  obtains pre bs post where "buf = pre @ bs @ post" "length bs = n" "off = int (length pre)"
    "buf' = pre @ bytes_of little n v @ post" "off' = off + int n" "least sg n \<le> v" "v \<le> greatest sg n"
proof -
  have w: "least sg n \<le> v" "v \<le> greatest sg n" "in_bounds buf off n" using write_succeeds_iff assms by blast+
  then obtain pre bs post where b: "buf = pre @ bs @ post" "length bs = n" "off = int (length pre)"
    using in_bounds_split by blast
  then have "buf' = pre @ bytes_of little n v @ post" "off' = off + int n" using wr_in w assms by simp_all
  then show thesis using that b w by blast
qed

theorem write_read:
  assumes "wr buf v off = Inr (buf', off')" "offset_ok off"
  shows "rd buf' off = Inr v" "off' = off + int n"
proof -
  obtain pre bs post where b: "off = int (length pre)" "buf' = pre @ bytes_of little n v @ post" "off' = off + int n"
    "least sg n \<le> v" "v \<le> greatest sg n" by (rule write_form [OF assms(1)]) blast
  show "rd buf' off = Inr v"
    using rd_in [of "bytes_of little n v" pre post] value_of_bytes_of [OF width b(4,5)] assms(2) by (simp add: b(1,2))
  show "off' = off + int n" by (rule b(3))
qed

theorem read_write:
  assumes "rd buf off = Inr v" "offset_ok off"
  shows "wr buf v off = Inr (buf, off + int n)" "least sg n \<le> v" "v \<le> greatest sg n"
proof -
  have "in_bounds buf off n" using rd_out [OF _ assms(2)] assms(1) by fastforce
  then obtain pre bs post where b: "buf = pre @ bs @ post" "length bs = n" "off = int (length pre)"
    using in_bounds_split by blast
  have v: "v = value_of little sg bs" using rd_in [OF b(2), of pre post] assms b by simp
  show w: "least sg n \<le> v" "v \<le> greatest sg n" using value_of_bounds [of bs] width b(2) v by simp_all
  show "wr buf v off = Inr (buf, off + int n)"
    using wr_in [OF b(2) w, of pre post] bytes_of_value_of [of bs] width b v by simp
qed

theorem write_frame:
  assumes "wr buf v off = Inr (buf', off')"
  shows "length buf' = length buf" "int i < off \<or> off' \<le> int i \<Longrightarrow> buf' ! i = buf ! i"
proof -
  obtain pre bs post where b: "buf = pre @ bs @ post" "length bs = n" "off = int (length pre)"
    "buf' = pre @ bytes_of little n v @ post" "off' = off + int n" by (rule write_form [OF assms]) blast
  show "length buf' = length buf" using b by simp
  show "buf' ! i = buf ! i" if "int i < off \<or> off' \<le> int i" using that b by (auto simp: nth_append)
qed

theorem read_succeeds_iff: "offset_ok off \<Longrightarrow> (\<exists>v. rd buf off = Inr v) \<longleftrightarrow> in_bounds buf off n"
  using rd_in rd_out by (metis in_bounds_split sum.distinct(1))

end

end
