(* ===== verification/Buffer_Reads.thy ===== *)
theory Buffer_Reads
  imports Buffer_Codec
begin

text \<open>
  The read functions of \<^verbatim>\<open>Buffer\<close> return the value of the bytes at the offset, and the bytes the write
  functions compute by shifting are the bytes of the value.
\<close>

section \<open>Access inside the bounds\<close>

lemma byte_at_app: "k < length bs \<Longrightarrow> byte_at (pre @ bs @ post) (int (length pre) + int k) = Some (uint (bs ! k))"
  by (simp add: byte_at_def nat_add_distrib nth_append)

lemma set_byte_app:
  "k < length bs \<Longrightarrow> set_byte (pre @ bs @ post) (int (length pre) + int k) v = pre @ bs[k := word_of_int v] @ post"
  by (simp add: set_byte_def nat_add_distrib list_update_append)

lemma byte_at_first: "0 < length bs \<Longrightarrow> byte_at (pre @ bs @ post) (int (length pre)) = Some (uint (bs ! 0))"
  using byte_at_app [of 0] by simp

lemma set_byte_first: "0 < length bs \<Longrightarrow> set_byte (pre @ bs @ post) (int (length pre)) v = pre @ bs[0 := word_of_int v] @ post"
  using set_byte_app [of 0] by simp

lemmas byte_at_simps = byte_at_first byte_at_app [of 1, simplified] byte_at_app [of 2, simplified]
  byte_at_app [of 3, simplified] byte_at_app [of 4, simplified] byte_at_app [of 5, simplified]
  byte_at_app [of 6, simplified] byte_at_app [of 7, simplified]

lemmas set_byte_simps = set_byte_first set_byte_app [of 1, simplified] set_byte_app [of 2, simplified]
  set_byte_app [of 3, simplified] set_byte_app [of 4, simplified] set_byte_app [of 5, simplified]
  set_byte_app [of 6, simplified] set_byte_app [of 7, simplified]

lemma list_of_length:
  "length bs = Suc 0 \<Longrightarrow> \<exists>a. bs = [a]" "length bs = 2 \<Longrightarrow> \<exists>a b. bs = [a, b]" "length bs = 3 \<Longrightarrow> \<exists>a b c. bs = [a, b, c]"
  "length bs = 4 \<Longrightarrow> \<exists>a b c d. bs = [a, b, c, d]" "length bs = 5 \<Longrightarrow> \<exists>a b c d e. bs = [a, b, c, d, e]"
  "length bs = 6 \<Longrightarrow> \<exists>a b c d e f. bs = [a, b, c, d, e, f]"
  "length bs = 8 \<Longrightarrow> \<exists>a b c d e f g h. bs = [a, b, c, d, e, f, g, h]"
  by (auto simp: numeral_eq_Suc length_Suc_conv)

section \<open>Outside the bounds\<close>

lemma byte_at_None: "byte_at buf i = None \<longleftrightarrow> i < 0 \<or> int (length buf) \<le> i"
  by (auto simp: byte_at_def)

lemma boundsError_offset: "boundsError off (int (length buf) - int n) None = range_error buf off n"
  by (simp add: boundsError_def range_error_def)

lemma checked_read_out: "\<not> in_bounds buf off (Suc k) \<Longrightarrow> checked_read buf off k f = Inl (range_error buf off (Suc k))"
  unfolding checked_read_def using boundsError_offset [of off buf "Suc k"]
  by (auto simp: in_bounds_def byte_at_None split: option.split) (auto simp: byte_at_def split: if_splits)

lemma checkBounds_iff: "checkBounds buf off k = (if in_bounds buf off (Suc k) then None else Some (range_error buf off (Suc k)))"
  unfolding checkBounds_def using boundsError_offset [of off buf "Suc k"]
  by (auto simp: in_bounds_def byte_at_None algebra_simps)

section \<open>Signed values\<close>

lemma le_value_append: "le_value (xs @ ys) = le_value xs + 2 ^ (8 * length xs) * le_value ys"
  by (induction xs) (simp_all add: power_add algebra_simps)

lemma as_signed_high:
  assumes "0 \<le> lo" "lo < 2 ^ a" "0 < b"
  shows "as_signed (a + b) (lo + 2 ^ a * hi) = as_signed b hi * 2 ^ a + lo"
proof -
  obtain b' where b: "b = Suc b'" using assms(3) by (cases b) auto
  have "2 ^ b' \<le> hi \<longleftrightarrow> 2 ^ (a + b') \<le> lo + 2 ^ a * hi"
  proof
    assume "2 ^ b' \<le> hi"
    then have le: "(2 :: int) ^ a * 2 ^ b' \<le> 2 ^ a * hi" by simp
    show "2 ^ (a + b') \<le> lo + 2 ^ a * hi" unfolding power_add using le assms(1) by linarith
  next
    assume h: "2 ^ (a + b') \<le> lo + 2 ^ a * hi"
    show "2 ^ b' \<le> hi"
    proof (rule ccontr)
      assume "\<not> 2 ^ b' \<le> hi"
      then have "2 ^ a * (hi + 1) \<le> (2 :: int) ^ a * 2 ^ b'" by (intro mult_left_mono) auto
      then show False using h assms(2) by (simp add: power_add algebra_simps)
    qed
  qed
  then show ?thesis by (auto simp: as_signed_def b power_add algebra_simps)
qed

lemma js_shl_byte: "js_shl (uint (b :: byte)) 24 = as_signed 8 (uint b) * 2 ^ 24"
proof -
  have "uint b * 2 ^ 24 mod 2 ^ 32 = uint b * 2 ^ 24" using uint_byte [of b] by (intro mod_pos_pos_trivial) auto
  moreover have "to_int32 (uint b) = uint b" using uint_byte [of b] by simp
  ultimately show ?thesis using uint_byte [of b] by (auto simp: js_shl_def to_int32_def as_signed_def Let_def)
qed

lemma sign_extend_byte: "js_or (uint (b :: byte)) (js_and (uint b) (2 ^ 7) * 0x1fffffe) = as_signed 8 (uint b)"
  using sign_extend_8 [of "uint b"] uint_byte [of b] by simp

lemma sign_extend_two:
  "js_or (uint (a :: byte) + uint (b :: byte) * 256) (js_and (uint a + uint b * 256) 32768 * 0x1fffe) =
     as_signed 16 (uint a + 256 * uint b)"
  using sign_extend_16 [of "uint a + uint b * 256"] uint_byte [of a] uint_byte [of b] by (simp add: mult.commute)

lemma sign_extend_three:
  "js_or (uint (a :: byte) + uint (b :: byte) * 256 + uint (c :: byte) * 65536)
     (js_and (uint a + uint b * 256 + uint c * 65536) 8388608 * 0x1fe) =
     as_signed 24 (uint a + 256 * (uint b + 256 * uint c))"
  using sign_extend_24 [of "uint a + uint b * 256 + uint c * 65536"] uint_byte [of a] uint_byte [of b] uint_byte [of c]
  by (simp add: algebra_simps)

lemma value_signed_split:
  assumes "hi \<noteq> []"
  shows "value_of True True (lo @ hi) = as_signed (8 * length hi) (le_value hi) * 2 ^ (8 * length lo) + le_value lo"
    "value_of False True (hi @ lo) = as_signed (8 * length hi) (le_value (rev hi)) * 2 ^ (8 * length lo) + le_value (rev lo)"
proof -
  have len: "8 * length (lo @ hi) = 8 * length lo + 8 * length hi" "8 * length (hi @ lo) = 8 * length lo + 8 * length hi"
    by simp_all
  show "value_of True True (lo @ hi) = as_signed (8 * length hi) (le_value hi) * 2 ^ (8 * length lo) + le_value lo"
    using assms le_value_bounds [of lo] unfolding value_of_def Let_def len
    by (simp add: le_value_append as_signed_high del: distrib_left_numeral)
  show "value_of False True (hi @ lo) = as_signed (8 * length hi) (le_value (rev hi)) * 2 ^ (8 * length lo) + le_value (rev lo)"
    using assms le_value_bounds [of "rev lo"] unfolding value_of_def Let_def len
    by (simp add: le_value_append as_signed_high del: distrib_left_numeral)
qed

section \<open>The bytes a write stores\<close>

lemma word_of_int_byte_eq: "(word_of_int x :: byte) = word_of_int y \<longleftrightarrow> x mod 256 = y mod 256"
  by (simp add: word_uint_eq_iff uint_word_of_int_byte)

lemma div_mod_byte: "k \<le> 24 \<Longrightarrow> (v mod 2 ^ 32) div 2 ^ k mod 256 = v div 2 ^ k mod (256 :: int)"
proof -
  assume k: "k \<le> 24"
  have "take_bit 8 (drop_bit k (take_bit 32 v)) = take_bit 8 (drop_bit k v)"
    using k by (intro bit_eqI) (auto simp: bit_simps)
  then show ?thesis by (simp add: take_bit_eq_mod drop_bit_eq_div)
qed

lemma byte_js_ushr: "k \<le> 24 \<Longrightarrow> (word_of_int (js_ushr v k) :: byte) = word_of_int (v div 2 ^ k)"
  unfolding word_of_int_byte_eq js_ushr_def to_uint32_def by (rule div_mod_byte)

lemma div_exp_le: "0 \<le> (u :: int) \<Longrightarrow> u div 2 ^ a \<le> u"
  using zdiv_mono2 [of u 1 "2 ^ a"] by simp

lemma js_ushr_ushr: "js_ushr (js_ushr v a) b = js_ushr v (a + b)"
proof -
  let ?u = "v mod 2 ^ 32"
  have "0 \<le> ?u div 2 ^ a" "?u div 2 ^ a \<le> ?u" using div_exp_le [of ?u a] by (simp_all add: pos_imp_zdiv_nonneg_iff)
  moreover have "?u < 2 ^ 32" by simp
  ultimately have "?u div 2 ^ a mod 2 ^ 32 = ?u div 2 ^ a" by (intro mod_pos_pos_trivial) linarith+
  then show ?thesis by (simp add: js_ushr_def to_uint32_def power_add zdiv_zmult2_eq)
qed

lemma byte_js_shr: "k \<le> 24 \<Longrightarrow> (word_of_int (js_shr v k) :: byte) = word_of_int (v div 2 ^ k)"
  unfolding word_of_int_byte_eq js_shr_def
  using div_mod_byte [of k "to_int32 v"] div_mod_byte [of k v] by (simp only: to_int32_mod)

lemma to_int32_range: "- (2 ^ 31) \<le> to_int32 v" "to_int32 v < 2 ^ 31"
  by (auto simp: to_int32_def Let_def)

lemma to_int32_id: "- (2 ^ 31) \<le> v \<Longrightarrow> v < 2 ^ 31 \<Longrightarrow> to_int32 v = v"
  using as_signed_mod [of 32 v] by (simp add: to_int32_def as_signed_def Let_def)

lemma js_shr_shr: "js_shr (js_shr v a) b = js_shr v (a + b)"
proof -
  let ?s = "to_int32 v"
  have "?s div 2 ^ a < 2 ^ 31"
  proof (cases "0 \<le> ?s")
    case True
    then have "?s div 2 ^ a \<le> ?s" by (rule div_exp_le)
    then show ?thesis using to_int32_range [of v] by linarith
  next
    case False
    then have "?s div 2 ^ a < 0" using div_neg_pos_less0 [of ?s "2 ^ a"] by simp
    then show ?thesis using zero_less_power [of "2 :: int" 31] by linarith
  qed
  moreover have "- (2 ^ 31) \<le> ?s div 2 ^ a"
  proof -
    have "- (2 ^ 31) * 2 ^ a \<le> - (2 ^ 31 :: int)" by simp
    then have "- (2 ^ 31) * 2 ^ a \<le> ?s" using to_int32_range(1) [of v] by linarith
    then have "- (2 ^ 31) * 2 ^ a div 2 ^ a \<le> ?s div 2 ^ a" by (intro zdiv_mono1) simp_all
    moreover have "- (2 ^ 31) * 2 ^ a div 2 ^ a = - (2 ^ 31 :: int)" by (rule nonzero_mult_div_cancel_right) simp
    ultimately show ?thesis by simp
  qed
  ultimately have "to_int32 (?s div 2 ^ a) = ?s div 2 ^ a" by (intro to_int32_id)
  then show ?thesis by (simp add: js_shr_def power_add zdiv_zmult2_eq)
qed

lemmas stored = byte_js_ushr js_ushr_ushr byte_js_shr js_shr_shr

section \<open>The unsigned reads\<close>

lemmas read_simps = checked_read_def mid_def byte_at_simps

lemmas unsigned_read_defs = readUInt8_def readUInt16LE_def readUInt16BE_def readUInt24LE_def readUInt24BE_def readUInt32LE_def
  readUInt32BE_def readUInt40LE_def readUInt40BE_def readUInt48LE_def readUInt48BE_def

lemma unsigned_reads_in:
  "length bs = 1 \<Longrightarrow> readUInt8 (pre @ bs @ post) (int (length pre)) = Inr (value_of little False bs)"
  "length bs = 2 \<Longrightarrow> readUInt16LE (pre @ bs @ post) (int (length pre)) = Inr (value_of True False bs)"
  "length bs = 2 \<Longrightarrow> readUInt16BE (pre @ bs @ post) (int (length pre)) = Inr (value_of False False bs)"
  "length bs = 3 \<Longrightarrow> readUInt24LE (pre @ bs @ post) (int (length pre)) = Inr (value_of True False bs)"
  "length bs = 3 \<Longrightarrow> readUInt24BE (pre @ bs @ post) (int (length pre)) = Inr (value_of False False bs)"
  "length bs = 4 \<Longrightarrow> readUInt32LE (pre @ bs @ post) (int (length pre)) = Inr (value_of True False bs)"
  "length bs = 4 \<Longrightarrow> readUInt32BE (pre @ bs @ post) (int (length pre)) = Inr (value_of False False bs)"
  "length bs = 5 \<Longrightarrow> readUInt40LE (pre @ bs @ post) (int (length pre)) = Inr (value_of True False bs)"
  "length bs = 5 \<Longrightarrow> readUInt40BE (pre @ bs @ post) (int (length pre)) = Inr (value_of False False bs)"
  "length bs = 6 \<Longrightarrow> readUInt48LE (pre @ bs @ post) (int (length pre)) = Inr (value_of True False bs)"
  "length bs = 6 \<Longrightarrow> readUInt48BE (pre @ bs @ post) (int (length pre)) = Inr (value_of False False bs)"
  by (simp_all add: unsigned_read_defs read_simps) (auto dest!: list_of_length simp: value_of_def Let_def)

section \<open>The signed reads\<close>

text \<open>The high part carries the sign; \<open>h\<close> bytes of it.\<close>

lemma readInt8_in: "length bs = 1 \<Longrightarrow> readInt8 (pre @ bs @ post) (int (length pre)) = Inr (value_of little True bs)"
  by (simp add: readInt8_def read_simps sign_extend_byte [simplified]) (drule list_of_length(1), auto simp: value_of_def Let_def)

lemma readInt16LE_in:
  assumes "length bs = 2"
  shows "readInt16LE (pre @ bs @ post) (int (length pre)) = Inr (value_of True True bs)"
proof -
  obtain a b where bs: "bs = [a, b]" using list_of_length(2) [OF assms] by auto
  have v: "value_of True True bs = as_signed 16 (le_value [a, b]) * 2 ^ 0 + le_value []"
    using value_signed_split(1) [of "[a, b]" "[]"] by (simp add: bs)
  show ?thesis unfolding v using assms sign_extend_two [of a b] by (simp add: readInt16LE_def read_simps Let_def) (simp add: bs algebra_simps)
qed

lemma readInt24LE_in:
  assumes "length bs = 3"
  shows "readInt24LE (pre @ bs @ post) (int (length pre)) = Inr (value_of True True bs)"
proof -
  obtain a b c where bs: "bs = [a, b, c]" using list_of_length(3) [OF assms] by auto
  have v: "value_of True True bs = as_signed 24 (le_value [a, b, c]) * 2 ^ 0 + le_value []"
    using value_signed_split(1) [of "[a, b, c]" "[]"] by (simp add: bs)
  show ?thesis unfolding v using assms sign_extend_three [of a b c] by (simp add: readInt24LE_def read_simps Let_def) (simp add: bs algebra_simps)
qed

lemma readInt32LE_in:
  assumes "length bs = 4"
  shows "readInt32LE (pre @ bs @ post) (int (length pre)) = Inr (value_of True True bs)"
proof -
  obtain a b c d where bs: "bs = [a, b, c, d]" using list_of_length(4) [OF assms] by auto
  have v: "value_of True True bs = as_signed 8 (le_value [d]) * 2 ^ 24 + le_value [a, b, c]"
    using value_signed_split(1) [of "[d]" "[a, b, c]"] by (simp add: bs)
  show ?thesis unfolding v using assms js_shl_byte [of d] by (simp add: readInt32LE_def read_simps Let_def) (simp add: bs algebra_simps)
qed

lemma readInt40LE_in:
  assumes "length bs = 5"
  shows "readInt40LE (pre @ bs @ post) (int (length pre)) = Inr (value_of True True bs)"
proof -
  obtain a b c d e where bs: "bs = [a, b, c, d, e]" using list_of_length(5) [OF assms] by auto
  have v: "value_of True True bs = as_signed 8 (le_value [e]) * 2 ^ 32 + le_value [a, b, c, d]"
    using value_signed_split(1) [of "[e]" "[a, b, c, d]"] by (simp add: bs)
  show ?thesis unfolding v using assms sign_extend_byte [of e] by (simp add: readInt40LE_def read_simps Let_def) (simp add: bs algebra_simps)
qed

lemma readInt48LE_in:
  assumes "length bs = 6"
  shows "readInt48LE (pre @ bs @ post) (int (length pre)) = Inr (value_of True True bs)"
proof -
  obtain a b c d e f where bs: "bs = [a, b, c, d, e, f]" using list_of_length(6) [OF assms] by auto
  have v: "value_of True True bs = as_signed 16 (le_value [e, f]) * 2 ^ 32 + le_value [a, b, c, d]"
    using value_signed_split(1) [of "[e, f]" "[a, b, c, d]"] by (simp add: bs)
  show ?thesis unfolding v using assms sign_extend_two [of e f] by (simp add: readInt48LE_def read_simps Let_def) (simp add: bs algebra_simps)
qed

lemma readInt16BE_in:
  assumes "length bs = 2"
  shows "readInt16BE (pre @ bs @ post) (int (length pre)) = Inr (value_of False True bs)"
proof -
  obtain a b where bs: "bs = [a, b]" using list_of_length(2) [OF assms] by auto
  have v: "value_of False True bs = as_signed 16 (le_value [b, a]) * 2 ^ 0 + le_value []"
    using value_signed_split(2) [of "[a, b]" "[]"] by (simp add: bs)
  show ?thesis unfolding v using assms sign_extend_two [of b a] by (simp add: readInt16BE_def read_simps Let_def) (simp add: bs algebra_simps)
qed

lemma readInt24BE_in:
  assumes "length bs = 3"
  shows "readInt24BE (pre @ bs @ post) (int (length pre)) = Inr (value_of False True bs)"
proof -
  obtain a b c where bs: "bs = [a, b, c]" using list_of_length(3) [OF assms] by auto
  have v: "value_of False True bs = as_signed 24 (le_value [c, b, a]) * 2 ^ 0 + le_value []"
    using value_signed_split(2) [of "[a, b, c]" "[]"] by (simp add: bs)
  show ?thesis unfolding v using assms sign_extend_three [of c b a] by (simp add: readInt24BE_def read_simps Let_def) (simp add: bs algebra_simps)
qed

lemma readInt32BE_in:
  assumes "length bs = 4"
  shows "readInt32BE (pre @ bs @ post) (int (length pre)) = Inr (value_of False True bs)"
proof -
  obtain a b c d where bs: "bs = [a, b, c, d]" using list_of_length(4) [OF assms] by auto
  have v: "value_of False True bs = as_signed 8 (le_value [a]) * 2 ^ 24 + le_value [d, c, b]"
    using value_signed_split(2) [of "[a]" "[b, c, d]"] by (simp add: bs)
  show ?thesis unfolding v using assms js_shl_byte [of a] by (simp add: readInt32BE_def read_simps Let_def) (simp add: bs algebra_simps)
qed

lemma readInt40BE_in:
  assumes "length bs = 5"
  shows "readInt40BE (pre @ bs @ post) (int (length pre)) = Inr (value_of False True bs)"
proof -
  obtain a b c d e where bs: "bs = [a, b, c, d, e]" using list_of_length(5) [OF assms] by auto
  have v: "value_of False True bs = as_signed 8 (le_value [a]) * 2 ^ 32 + le_value [e, d, c, b]"
    using value_signed_split(2) [of "[a]" "[b, c, d, e]"] by (simp add: bs)
  show ?thesis unfolding v using assms sign_extend_byte [of a] by (simp add: readInt40BE_def read_simps Let_def) (simp add: bs algebra_simps)
qed

lemma readInt48BE_in:
  assumes "length bs = 6"
  shows "readInt48BE (pre @ bs @ post) (int (length pre)) = Inr (value_of False True bs)"
proof -
  obtain a b c d e f where bs: "bs = [a, b, c, d, e, f]" using list_of_length(6) [OF assms] by auto
  have v: "value_of False True bs = as_signed 16 (le_value [b, a]) * 2 ^ 32 + le_value [f, e, d, c]"
    using value_signed_split(2) [of "[a, b]" "[c, d, e, f]"] by (simp add: bs)
  show ?thesis unfolding v using assms sign_extend_two [of b a] by (simp add: readInt48BE_def read_simps Let_def) (simp add: bs algebra_simps)
qed

section \<open>The 64-bit reads\<close>

definition offset32 :: "int \<Rightarrow> bool" where
  "offset32 off \<longleftrightarrow> 0 \<le> off \<and> off < 2 ^ 32"

lemma js_ushr_offset: "offset32 off \<Longrightarrow> js_ushr off 0 = off"
  by (simp add: js_ushr_def to_uint32_def offset32_def)

lemma readBigUInt64LE_in:
  "length bs = 8 \<Longrightarrow> offset32 (int (length pre)) \<Longrightarrow>
   readBigUInt64LE (pre @ bs @ post) (int (length pre)) = Inr (value_of True False bs)"
  by (simp add: readBigUInt64LE_def js_ushr_offset read_simps Let_def push_bit_eq_mult)
    (drule list_of_length(7), auto simp: value_of_def Let_def)

lemma readBigInt64LE_in:
  assumes "length bs = 8" "offset32 (int (length pre))"
  shows "readBigInt64LE (pre @ bs @ post) (int (length pre)) = Inr (value_of True True bs)"
proof -
  obtain a b c d e f g h where bs: "bs = [a, b, c, d, e, f, g, h]" using list_of_length(7) [OF assms(1)] by auto
  have v: "value_of True True bs = as_signed 8 (uint h) * 2 ^ 56 + le_value [a, b, c, d, e, f, g]"
    using value_signed_split(1) [of "[h]" "[a, b, c, d, e, f, g]"] by (simp add: bs)
  show ?thesis unfolding v using assms js_shl_byte [of h]
    by (simp add: readBigInt64LE_def js_ushr_offset read_simps Let_def push_bit_eq_mult) (simp add: bs algebra_simps)
qed

lemma readBigUInt64BE_in:
  "length bs = 8 \<Longrightarrow> offset32 (int (length pre)) \<Longrightarrow>
   readBigUInt64BE (pre @ bs @ post) (int (length pre)) = Inr (value_of False False bs)"
  by (simp add: readBigUInt64BE_def js_ushr_offset read_simps Let_def push_bit_eq_mult)
    (drule list_of_length(7), auto simp: value_of_def Let_def)

lemma readBigInt64BE_in:
  assumes "length bs = 8" "offset32 (int (length pre))"
  shows "readBigInt64BE (pre @ bs @ post) (int (length pre)) = Inr (value_of False True bs)"
proof -
  obtain a b c d e f g h where bs: "bs = [a, b, c, d, e, f, g, h]" using list_of_length(7) [OF assms(1)] by auto
  have v: "value_of False True bs = as_signed 8 (uint a) * 2 ^ 56 + le_value [h, g, f, e, d, c, b]"
    using value_signed_split(2) [of "[a]" "[b, c, d, e, f, g, h]"] by (simp add: bs)
  show ?thesis unfolding v using assms js_shl_byte [of a]
    by (simp add: readBigInt64BE_def js_ushr_offset read_simps Let_def push_bit_eq_mult) (simp add: bs algebra_simps)
qed

section \<open>Reads outside the bounds\<close>

lemmas checked_read_outs = checked_read_out [of _ _ "Suc 0", folded numeral_2_eq_2] checked_read_out [of _ _ 2, simplified]
  checked_read_out [of _ _ 3, simplified] checked_read_out [of _ _ 4, simplified] checked_read_out [of _ _ 5, simplified]
  checked_read_out [of _ _ 7, simplified]

lemma read8_out:
  assumes "\<not> in_bounds buf off 1"
  shows "readUInt8 buf off = Inl (range_error buf off 1)" "readInt8 buf off = Inl (range_error buf off 1)"
proof -
  have "byte_at buf off = None" using assms by (auto simp: in_bounds_def byte_at_None)
  then show "readUInt8 buf off = Inl (range_error buf off 1)" "readInt8 buf off = Inl (range_error buf off 1)"
    using boundsError_offset [of off buf 1] by (simp_all add: readUInt8_def readInt8_def)
qed

lemmas read_defs = readUInt16LE_def readUInt16BE_def readUInt24LE_def readUInt24BE_def readUInt32LE_def readUInt32BE_def
  readUInt40LE_def readUInt40BE_def readUInt48LE_def readUInt48BE_def readInt16LE_def readInt16BE_def
  readInt24LE_def readInt24BE_def readInt32LE_def readInt32BE_def readInt40LE_def readInt40BE_def
  readInt48LE_def readInt48BE_def readBigUInt64LE_def readBigUInt64BE_def readBigInt64LE_def readBigInt64BE_def

lemma reads_out:
  "\<not> in_bounds buf off 2 \<Longrightarrow> readUInt16LE buf off = Inl (range_error buf off 2)"
  "\<not> in_bounds buf off 2 \<Longrightarrow> readUInt16BE buf off = Inl (range_error buf off 2)"
  "\<not> in_bounds buf off 3 \<Longrightarrow> readUInt24LE buf off = Inl (range_error buf off 3)"
  "\<not> in_bounds buf off 3 \<Longrightarrow> readUInt24BE buf off = Inl (range_error buf off 3)"
  "\<not> in_bounds buf off 4 \<Longrightarrow> readUInt32LE buf off = Inl (range_error buf off 4)"
  "\<not> in_bounds buf off 4 \<Longrightarrow> readUInt32BE buf off = Inl (range_error buf off 4)"
  "\<not> in_bounds buf off 5 \<Longrightarrow> readUInt40LE buf off = Inl (range_error buf off 5)"
  "\<not> in_bounds buf off 5 \<Longrightarrow> readUInt40BE buf off = Inl (range_error buf off 5)"
  "\<not> in_bounds buf off 6 \<Longrightarrow> readUInt48LE buf off = Inl (range_error buf off 6)"
  "\<not> in_bounds buf off 6 \<Longrightarrow> readUInt48BE buf off = Inl (range_error buf off 6)"
  "\<not> in_bounds buf off 2 \<Longrightarrow> readInt16LE buf off = Inl (range_error buf off 2)"
  "\<not> in_bounds buf off 2 \<Longrightarrow> readInt16BE buf off = Inl (range_error buf off 2)"
  "\<not> in_bounds buf off 3 \<Longrightarrow> readInt24LE buf off = Inl (range_error buf off 3)"
  "\<not> in_bounds buf off 3 \<Longrightarrow> readInt24BE buf off = Inl (range_error buf off 3)"
  "\<not> in_bounds buf off 4 \<Longrightarrow> readInt32LE buf off = Inl (range_error buf off 4)"
  "\<not> in_bounds buf off 4 \<Longrightarrow> readInt32BE buf off = Inl (range_error buf off 4)"
  "\<not> in_bounds buf off 5 \<Longrightarrow> readInt40LE buf off = Inl (range_error buf off 5)"
  "\<not> in_bounds buf off 5 \<Longrightarrow> readInt40BE buf off = Inl (range_error buf off 5)"
  "\<not> in_bounds buf off 6 \<Longrightarrow> readInt48LE buf off = Inl (range_error buf off 6)"
  "\<not> in_bounds buf off 6 \<Longrightarrow> readInt48BE buf off = Inl (range_error buf off 6)"
  "\<not> in_bounds buf off 8 \<Longrightarrow> offset32 off \<Longrightarrow> readBigUInt64LE buf off = Inl (range_error buf off 8)"
  "\<not> in_bounds buf off 8 \<Longrightarrow> offset32 off \<Longrightarrow> readBigUInt64BE buf off = Inl (range_error buf off 8)"
  "\<not> in_bounds buf off 8 \<Longrightarrow> offset32 off \<Longrightarrow> readBigInt64LE buf off = Inl (range_error buf off 8)"
  "\<not> in_bounds buf off 8 \<Longrightarrow> offset32 off \<Longrightarrow> readBigInt64BE buf off = Inl (range_error buf off 8)"
  by (simp_all add: read_defs Let_def js_ushr_offset checked_read_outs)

end
