(* ===== verification/Buffer_Properties.thy ===== *)
theory Buffer_Properties
  imports Buffer_Reads
begin

text \<open>
  Every pair of integer access functions of \<^verbatim>\<open>Buffer\<close> meets the contract \<^verbatim>\<open>int_codec\<close>: an interpretation
  per width, byte order and signedness; and the properties of the functions that take the width.
\<close>

section \<open>The writes\<close>

lemma low32: "v AND 4294967295 = v mod 2 ^ 32" for v :: int
  using take_bit_eq_mask [of 32 v] by (simp add: take_bit_eq_mod mask_eq_exp_minus_1)

lemma byte_low32:
  "(word_of_int (v AND 4294967295) :: byte) = word_of_int v"
  "k \<le> 24 \<Longrightarrow> (word_of_int (js_shr (v AND 4294967295) k) :: byte) = word_of_int (v div 2 ^ k)"
  using div_mod_byte [of 0 v] div_mod_byte [of k v] byte_js_shr [of k "v mod 2 ^ 32"]
  by (simp_all add: low32 word_of_int_byte_eq)

text \<open>The bytes of a value, spelled out.\<close>

lemma le_bytes_simps:
  "le_bytes 1 v = [word_of_int v]"
  "le_bytes 2 v = [word_of_int v, word_of_int (v div 2 ^ 8)]"
  "le_bytes 3 v = [word_of_int v, word_of_int (v div 2 ^ 8), word_of_int (v div 2 ^ 16)]"
  "le_bytes 4 v = [word_of_int v, word_of_int (v div 2 ^ 8), word_of_int (v div 2 ^ 16), word_of_int (v div 2 ^ 24)]"
  "le_bytes 5 v = [word_of_int v, word_of_int (v div 2 ^ 8), word_of_int (v div 2 ^ 16), word_of_int (v div 2 ^ 24),
     word_of_int (v div 2 ^ 32)]"
  "le_bytes 6 v = [word_of_int v, word_of_int (v div 2 ^ 8), word_of_int (v div 2 ^ 16), word_of_int (v div 2 ^ 24),
     word_of_int (v div 2 ^ 32), word_of_int (v div 2 ^ 40)]"
  "le_bytes 8 v = [word_of_int v, word_of_int (v div 2 ^ 8), word_of_int (v div 2 ^ 16), word_of_int (v div 2 ^ 24),
     word_of_int (v div 2 ^ 32), word_of_int (v div 2 ^ 40), word_of_int (v div 2 ^ 48), word_of_int (v div 2 ^ 56)]"
  by (simp_all add: eval_nat_numeral zdiv_zmult2_eq [symmetric])

text \<open>Inside the bounds a write replaces the bytes of its width.\<close>

lemmas write_defs = writeU_Int8_def writeU_Int16LE_def writeU_Int16BE_def writeU_Int24LE_def writeU_Int24BE_def writeU_Int32LE_def
  writeU_Int32BE_def writeU_Int40LE_def writeU_Int40BE_def writeU_Int48LE_def writeU_Int48BE_def
  writeUInt32LE_unsigned_def writeUInt32BE_unsigned_def wrtBigUInt64LE_def wrtBigUInt64BE_def

lemma set_byte_app':
  "k < length bs \<Longrightarrow> set_byte (pre @ bs @ post) (int k + int (length pre)) v = pre @ bs[k := word_of_int v] @ post"
  using set_byte_app [of k bs pre post v] by (simp add: add.commute)

lemmas set_byte_simps' = set_byte_app' [of 1, simplified] set_byte_app' [of 2, simplified] set_byte_app' [of 3, simplified]
  set_byte_app' [of 4, simplified] set_byte_app' [of 5, simplified]

lemma check_None:
  "mn \<le> v \<Longrightarrow> v \<le> mx \<Longrightarrow> length bs = Suc k \<Longrightarrow> checkInt v mn mx (pre @ bs @ post) (int (length pre)) k = None"
  "mn \<le> v \<Longrightarrow> v \<le> mx \<Longrightarrow> length bs = Suc k \<Longrightarrow> checkIntBI v mn mx (pre @ bs @ post) (int (length pre)) k = None"
  by (simp_all add: checkInt_def checkIntBI_def checkBounds_iff)

lemma writeU_Int8_in:
  assumes "length bs = Suc 0" "mn \<le> v" "v \<le> mx"
  shows "writeU_Int8 (pre @ bs @ post) v (int (length pre)) mn mx = Inr (pre @ bytes_of little (Suc 0) v @ post, int (length pre) + 1)"
proof -
  obtain a where bs: "bs = [a]" using list_of_length(1) assms(1) by auto
  have "byte_at (pre @ bs @ post) (int (length pre)) = Some (uint (bs ! 0))"
    "set_byte (pre @ bs @ post) (int (length pre)) v = pre @ bs[0 := word_of_int v] @ post"
    using assms(1) by (simp_all add: byte_at_first set_byte_first)
  then show ?thesis using assms(2,3) by (simp add: writeU_Int8_def bytes_of_def bs)
qed

lemma writeU_Int16LE_in:
  assumes "length bs = 2" "mn \<le> v" "v \<le> mx"
  shows "writeU_Int16LE (pre @ bs @ post) v (int (length pre)) mn mx = Inr (pre @ bytes_of True 2 v @ post, int (length pre) + 2)"
  using assms check_None(1) [OF assms(2,3), of bs 1 pre post]
  by (simp add: writeU_Int16LE_def set_byte_simps set_byte_simps' Let_def) (auto dest!: list_of_length simp: bytes_of_def le_bytes_simps stored zdiv_zmult2_eq [symmetric])

lemma writeU_Int16BE_in:
  assumes "length bs = 2" "mn \<le> v" "v \<le> mx"
  shows "writeU_Int16BE (pre @ bs @ post) v (int (length pre)) mn mx = Inr (pre @ bytes_of False 2 v @ post, int (length pre) + 2)"
  using assms check_None(1) [OF assms(2,3), of bs 1 pre post]
  by (simp add: writeU_Int16BE_def set_byte_simps set_byte_simps' Let_def) (auto dest!: list_of_length simp: bytes_of_def le_bytes_simps stored zdiv_zmult2_eq [symmetric])

lemma writeU_Int24LE_in:
  assumes "length bs = 3" "mn \<le> v" "v \<le> mx"
  shows "writeU_Int24LE (pre @ bs @ post) v (int (length pre)) mn mx = Inr (pre @ bytes_of True 3 v @ post, int (length pre) + 3)"
  using assms check_None(1) [OF assms(2,3), of bs 2 pre post]
  by (simp add: writeU_Int24LE_def set_byte_simps set_byte_simps' Let_def) (auto dest!: list_of_length simp: bytes_of_def le_bytes_simps stored zdiv_zmult2_eq [symmetric])

lemma writeU_Int24BE_in:
  assumes "length bs = 3" "mn \<le> v" "v \<le> mx"
  shows "writeU_Int24BE (pre @ bs @ post) v (int (length pre)) mn mx = Inr (pre @ bytes_of False 3 v @ post, int (length pre) + 3)"
  using assms check_None(1) [OF assms(2,3), of bs 2 pre post]
  by (simp add: writeU_Int24BE_def set_byte_simps set_byte_simps' Let_def) (auto dest!: list_of_length simp: bytes_of_def le_bytes_simps stored zdiv_zmult2_eq [symmetric])

lemma writeU_Int32LE_in:
  assumes "length bs = 4" "mn \<le> v" "v \<le> mx"
  shows "writeU_Int32LE (pre @ bs @ post) v (int (length pre)) mn mx = Inr (pre @ bytes_of True 4 v @ post, int (length pre) + 4)"
  using assms check_None(1) [OF assms(2,3), of bs 3 pre post]
  by (simp add: writeU_Int32LE_def set_byte_simps set_byte_simps' Let_def) (auto dest!: list_of_length simp: bytes_of_def le_bytes_simps stored zdiv_zmult2_eq [symmetric])

lemma writeU_Int32BE_in:
  assumes "length bs = 4" "mn \<le> v" "v \<le> mx"
  shows "writeU_Int32BE (pre @ bs @ post) v (int (length pre)) mn mx = Inr (pre @ bytes_of False 4 v @ post, int (length pre) + 4)"
  using assms check_None(1) [OF assms(2,3), of bs 3 pre post]
  by (simp add: writeU_Int32BE_def set_byte_simps set_byte_simps' Let_def) (auto dest!: list_of_length simp: bytes_of_def le_bytes_simps stored zdiv_zmult2_eq [symmetric])

lemma writeU_Int40LE_in:
  assumes "length bs = 5" "mn \<le> v" "v \<le> mx"
  shows "writeU_Int40LE (pre @ bs @ post) v (int (length pre)) mn mx = Inr (pre @ bytes_of True 5 v @ post, int (length pre) + 5)"
  using assms check_None(1) [OF assms(2,3), of bs 4 pre post]
  by (simp add: writeU_Int40LE_def set_byte_simps set_byte_simps' Let_def) (auto dest!: list_of_length simp: bytes_of_def le_bytes_simps stored zdiv_zmult2_eq [symmetric])

lemma writeU_Int40BE_in:
  assumes "length bs = 5" "mn \<le> v" "v \<le> mx"
  shows "writeU_Int40BE (pre @ bs @ post) v (int (length pre)) mn mx = Inr (pre @ bytes_of False 5 v @ post, int (length pre) + 5)"
  using assms check_None(1) [OF assms(2,3), of bs 4 pre post]
  by (simp add: writeU_Int40BE_def set_byte_simps set_byte_simps' Let_def) (auto dest!: list_of_length simp: bytes_of_def le_bytes_simps stored zdiv_zmult2_eq [symmetric])

lemma writeU_Int48LE_in:
  assumes "length bs = 6" "mn \<le> v" "v \<le> mx"
  shows "writeU_Int48LE (pre @ bs @ post) v (int (length pre)) mn mx = Inr (pre @ bytes_of True 6 v @ post, int (length pre) + 6)"
  using assms check_None(1) [OF assms(2,3), of bs 5 pre post]
  by (simp add: writeU_Int48LE_def set_byte_simps set_byte_simps' Let_def) (auto dest!: list_of_length simp: bytes_of_def le_bytes_simps stored zdiv_zmult2_eq [symmetric])

lemma writeU_Int48BE_in:
  assumes "length bs = 6" "mn \<le> v" "v \<le> mx"
  shows "writeU_Int48BE (pre @ bs @ post) v (int (length pre)) mn mx = Inr (pre @ bytes_of False 6 v @ post, int (length pre) + 6)"
  using assms check_None(1) [OF assms(2,3), of bs 5 pre post]
  by (simp add: writeU_Int48BE_def set_byte_simps set_byte_simps' Let_def) (auto dest!: list_of_length simp: bytes_of_def le_bytes_simps stored zdiv_zmult2_eq [symmetric])

lemma writeUInt32LE_unsigned_in:
  assumes "length bs = 4" "mn \<le> v" "v \<le> mx"
  shows "writeUInt32LE_unsigned (pre @ bs @ post) v (int (length pre)) mn mx = Inr (pre @ bytes_of True 4 v @ post, int (length pre) + 4)"
  using assms check_None(1) [OF assms(2,3), of bs 3 pre post]
  by (simp add: writeUInt32LE_unsigned_def set_byte_simps set_byte_simps' Let_def) (auto dest!: list_of_length simp: bytes_of_def le_bytes_simps stored zdiv_zmult2_eq [symmetric])

lemma writeUInt32BE_unsigned_in:
  assumes "length bs = 4" "mn \<le> v" "v \<le> mx"
  shows "writeUInt32BE_unsigned (pre @ bs @ post) v (int (length pre)) mn mx = Inr (pre @ bytes_of False 4 v @ post, int (length pre) + 4)"
  using assms check_None(1) [OF assms(2,3), of bs 3 pre post]
  by (simp add: writeUInt32BE_unsigned_def set_byte_simps set_byte_simps' Let_def) (auto dest!: list_of_length simp: bytes_of_def le_bytes_simps stored zdiv_zmult2_eq [symmetric])

lemma wrtBigUInt64LE_in:
  assumes "length bs = 8" "mn \<le> v" "v \<le> mx"
  shows "wrtBigUInt64LE (pre @ bs @ post) v (int (length pre)) mn mx = Inr (pre @ bytes_of True 8 v @ post, int (length pre) + 8)"
  using assms check_None(2) [OF assms(2,3), of bs 7 pre post]
  by (simp add: wrtBigUInt64LE_def set_byte_simps set_byte_simps' Let_def) (auto dest!: list_of_length simp: bytes_of_def le_bytes_simps js_shr_shr byte_low32 drop_bit_eq_div zdiv_zmult2_eq [symmetric])

lemma wrtBigUInt64BE_in:
  assumes "length bs = 8" "mn \<le> v" "v \<le> mx"
  shows "wrtBigUInt64BE (pre @ bs @ post) v (int (length pre)) mn mx = Inr (pre @ bytes_of False 8 v @ post, int (length pre) + 8)"
  using assms check_None(2) [OF assms(2,3), of bs 7 pre post]
  by (simp add: wrtBigUInt64BE_def set_byte_simps set_byte_simps' Let_def) (auto dest!: list_of_length simp: bytes_of_def le_bytes_simps js_shr_shr byte_low32 drop_bit_eq_div zdiv_zmult2_eq [symmetric])

text \<open>A value out of range is reported first, then an offset out of range.\<close>

lemma check_out:
  "mn \<le> v \<Longrightarrow> v \<le> mx \<Longrightarrow> \<not> in_bounds buf off (Suc k) \<Longrightarrow> checkInt v mn mx buf off k = Some (range_error buf off (Suc k))"
  "mn \<le> v \<Longrightarrow> v \<le> mx \<Longrightarrow> \<not> in_bounds buf off (Suc k) \<Longrightarrow> checkIntBI v mn mx buf off k = Some (range_error buf off (Suc k))"
  by (simp_all add: checkInt_def checkIntBI_def checkBounds_iff)

lemmas check_outs = check_out(1) [of _ _ _ _ _ "Suc 0", folded numeral_2_eq_2] check_out(1) [of _ _ _ _ _ 2, simplified]
  check_out(1) [of _ _ _ _ _ 3, simplified] check_out(1) [of _ _ _ _ _ 4, simplified]
  check_out(1) [of _ _ _ _ _ 5, simplified] check_out(2) [of _ _ _ _ _ 7, simplified]

definition value_range :: "int \<Rightarrow> int \<Rightarrow> nat \<Rightarrow> err_range" where
  "value_range mn mx k =
     (if k > 3 then (if mn = 0 then Range_unsigned ((k + 1) * 8) else Range_signed ((k + 1) * 8 - 1)) else Range_between mn mx)"

lemma check_value:
  "v < mn \<or> mx < v \<Longrightarrow> checkInt v mn mx buf off k = Some (ERR_OUT_OF_RANGE Arg_value (value_range mn mx k) v)"
  "v < mn \<or> mx < v \<Longrightarrow> checkIntBI v mn mx buf off k = Some (ERR_OUT_OF_RANGE Arg_value (value_range mn mx k) v)"
  by (auto simp: checkInt_def checkIntBI_def value_range_def)

lemma write8_out:
  assumes "mn \<le> v" "v \<le> mx" "\<not> in_bounds buf off 1"
  shows "writeU_Int8 buf v off mn mx = Inl (range_error buf off 1)"
proof -
  have "byte_at buf off = None" using assms(3) by (auto simp: in_bounds_def byte_at_None)
  then show ?thesis using assms(1,2) boundsError_offset [of off buf 1] by (simp add: writeU_Int8_def)
qed

lemma writes_out:
  "mn \<le> v \<Longrightarrow> v \<le> mx \<Longrightarrow> \<not> in_bounds buf off 2 \<Longrightarrow> writeU_Int16LE buf v off mn mx = Inl (range_error buf off 2)"
  "mn \<le> v \<Longrightarrow> v \<le> mx \<Longrightarrow> \<not> in_bounds buf off 2 \<Longrightarrow> writeU_Int16BE buf v off mn mx = Inl (range_error buf off 2)"
  "mn \<le> v \<Longrightarrow> v \<le> mx \<Longrightarrow> \<not> in_bounds buf off 3 \<Longrightarrow> writeU_Int24LE buf v off mn mx = Inl (range_error buf off 3)"
  "mn \<le> v \<Longrightarrow> v \<le> mx \<Longrightarrow> \<not> in_bounds buf off 3 \<Longrightarrow> writeU_Int24BE buf v off mn mx = Inl (range_error buf off 3)"
  "mn \<le> v \<Longrightarrow> v \<le> mx \<Longrightarrow> \<not> in_bounds buf off 4 \<Longrightarrow> writeU_Int32LE buf v off mn mx = Inl (range_error buf off 4)"
  "mn \<le> v \<Longrightarrow> v \<le> mx \<Longrightarrow> \<not> in_bounds buf off 4 \<Longrightarrow> writeU_Int32BE buf v off mn mx = Inl (range_error buf off 4)"
  "mn \<le> v \<Longrightarrow> v \<le> mx \<Longrightarrow> \<not> in_bounds buf off 5 \<Longrightarrow> writeU_Int40LE buf v off mn mx = Inl (range_error buf off 5)"
  "mn \<le> v \<Longrightarrow> v \<le> mx \<Longrightarrow> \<not> in_bounds buf off 5 \<Longrightarrow> writeU_Int40BE buf v off mn mx = Inl (range_error buf off 5)"
  "mn \<le> v \<Longrightarrow> v \<le> mx \<Longrightarrow> \<not> in_bounds buf off 6 \<Longrightarrow> writeU_Int48LE buf v off mn mx = Inl (range_error buf off 6)"
  "mn \<le> v \<Longrightarrow> v \<le> mx \<Longrightarrow> \<not> in_bounds buf off 6 \<Longrightarrow> writeU_Int48BE buf v off mn mx = Inl (range_error buf off 6)"
  "mn \<le> v \<Longrightarrow> v \<le> mx \<Longrightarrow> \<not> in_bounds buf off 4 \<Longrightarrow> writeUInt32LE_unsigned buf v off mn mx = Inl (range_error buf off 4)"
  "mn \<le> v \<Longrightarrow> v \<le> mx \<Longrightarrow> \<not> in_bounds buf off 4 \<Longrightarrow> writeUInt32BE_unsigned buf v off mn mx = Inl (range_error buf off 4)"
  "mn \<le> v \<Longrightarrow> v \<le> mx \<Longrightarrow> \<not> in_bounds buf off 8 \<Longrightarrow> wrtBigUInt64LE buf v off mn mx = Inl (range_error buf off 8)"
  "mn \<le> v \<Longrightarrow> v \<le> mx \<Longrightarrow> \<not> in_bounds buf off 8 \<Longrightarrow> wrtBigUInt64BE buf v off mn mx = Inl (range_error buf off 8)"
  by (simp_all add: write_defs check_outs)

lemma writes_value:
  assumes "v < mn \<or> mx < v"
  shows "\<exists>r. writeU_Int8 buf v off mn mx = Inl (ERR_OUT_OF_RANGE Arg_value r v)"
    "\<exists>r. writeU_Int16LE buf v off mn mx = Inl (ERR_OUT_OF_RANGE Arg_value r v)"
    "\<exists>r. writeU_Int16BE buf v off mn mx = Inl (ERR_OUT_OF_RANGE Arg_value r v)"
    "\<exists>r. writeU_Int24LE buf v off mn mx = Inl (ERR_OUT_OF_RANGE Arg_value r v)"
    "\<exists>r. writeU_Int24BE buf v off mn mx = Inl (ERR_OUT_OF_RANGE Arg_value r v)"
    "\<exists>r. writeU_Int32LE buf v off mn mx = Inl (ERR_OUT_OF_RANGE Arg_value r v)"
    "\<exists>r. writeU_Int32BE buf v off mn mx = Inl (ERR_OUT_OF_RANGE Arg_value r v)"
    "\<exists>r. writeU_Int40LE buf v off mn mx = Inl (ERR_OUT_OF_RANGE Arg_value r v)"
    "\<exists>r. writeU_Int40BE buf v off mn mx = Inl (ERR_OUT_OF_RANGE Arg_value r v)"
    "\<exists>r. writeU_Int48LE buf v off mn mx = Inl (ERR_OUT_OF_RANGE Arg_value r v)"
    "\<exists>r. writeU_Int48BE buf v off mn mx = Inl (ERR_OUT_OF_RANGE Arg_value r v)"
    "\<exists>r. writeUInt32LE_unsigned buf v off mn mx = Inl (ERR_OUT_OF_RANGE Arg_value r v)"
    "\<exists>r. writeUInt32BE_unsigned buf v off mn mx = Inl (ERR_OUT_OF_RANGE Arg_value r v)"
    "\<exists>r. wrtBigUInt64LE buf v off mn mx = Inl (ERR_OUT_OF_RANGE Arg_value r v)"
    "\<exists>r. wrtBigUInt64BE buf v off mn mx = Inl (ERR_OUT_OF_RANGE Arg_value r v)"
  using assms by (simp_all add: write_defs check_value) auto

section \<open>The pairs meet the contract\<close>

lemmas write_entry_defs = writeUInt8_def writeInt8_def writeUInt16LE_def writeUInt16BE_def writeInt16LE_def writeInt16BE_def writeUInt32LE_def
  writeUInt32BE_def writeInt32LE_def writeInt32BE_def writeBigUInt64LE_def writeBigUInt64BE_def
  writeBigInt64LE_def writeBigInt64BE_def

lemmas ranges = least_def greatest_def

lemmas dispatch_defs = readUIntLE_def readUIntBE_def readIntLE_def readIntBE_def writeUIntLE_def writeUIntBE_def writeIntLE_def writeIntBE_def

lemmas signed_reads_in = readInt8_in readInt16LE_in readInt16BE_in readInt24LE_in readInt24BE_in readInt32LE_in
  readInt32BE_in readInt40LE_in readInt40BE_in readInt48LE_in readInt48BE_in

lemmas big_reads_in = readBigUInt64LE_in readBigUInt64BE_in readBigInt64LE_in readBigInt64BE_in

lemmas writes_in = writeU_Int8_in writeU_Int16LE_in writeU_Int16BE_in writeU_Int24LE_in writeU_Int24BE_in writeU_Int32LE_in
  writeU_Int32BE_in writeU_Int40LE_in writeU_Int40BE_in writeU_Int48LE_in writeU_Int48BE_in writeUInt32LE_unsigned_in
  writeUInt32BE_unsigned_in wrtBigUInt64LE_in wrtBigUInt64BE_in

lemmas codec = unsigned_reads_in signed_reads_in big_reads_in read8_out reads_out writes_in write8_out writes_out writes_value
  write_entry_defs dispatch_defs

text \<open>The functions with a fixed width.\<close>

interpretation u8: int_codec 1 True False "\<lambda>_. True" readUInt8 writeUInt8
  by unfold_locales (simp_all add: ranges codec)

interpretation s8: int_codec 1 True True "\<lambda>_. True" readInt8 writeInt8
  by unfold_locales (simp_all add: ranges codec)

interpretation u16le: int_codec 2 True False "\<lambda>_. True" readUInt16LE writeUInt16LE
  by unfold_locales (simp_all add: ranges codec)

interpretation u16be: int_codec 2 False False "\<lambda>_. True" readUInt16BE writeUInt16BE
  by unfold_locales (simp_all add: ranges codec)

interpretation s16le: int_codec 2 True True "\<lambda>_. True" readInt16LE writeInt16LE
  by unfold_locales (simp_all add: ranges codec)

interpretation s16be: int_codec 2 False True "\<lambda>_. True" readInt16BE writeInt16BE
  by unfold_locales (simp_all add: ranges codec)

interpretation u32le: int_codec 4 True False "\<lambda>_. True" readUInt32LE writeUInt32LE
  by unfold_locales (simp_all add: ranges codec)

interpretation u32be: int_codec 4 False False "\<lambda>_. True" readUInt32BE writeUInt32BE
  by unfold_locales (simp_all add: ranges codec)

interpretation s32le: int_codec 4 True True "\<lambda>_. True" readInt32LE writeInt32LE
  by unfold_locales (simp_all add: ranges codec)

interpretation s32be: int_codec 4 False True "\<lambda>_. True" readInt32BE writeInt32BE
  by unfold_locales (simp_all add: ranges codec)

interpretation u64le: int_codec 8 True False "offset32" readBigUInt64LE writeBigUInt64LE
  by unfold_locales (simp_all add: ranges codec)

interpretation u64be: int_codec 8 False False "offset32" readBigUInt64BE writeBigUInt64BE
  by unfold_locales (simp_all add: ranges codec)

interpretation s64le: int_codec 8 True True "offset32" readBigInt64LE writeBigInt64LE
  by unfold_locales (simp_all add: ranges codec)

interpretation s64be: int_codec 8 False True "offset32" readBigInt64BE writeBigInt64BE
  by unfold_locales (simp_all add: ranges codec)

text \<open>The functions that take the width, at each of its six values.\<close>

interpretation uint_le1: int_codec 1 True False "\<lambda>_. True" "\<lambda>buf off. readUIntLE buf (Some off) 1" "\<lambda>buf v off. writeUIntLE buf v off 1"
  by unfold_locales (simp_all add: ranges codec)

interpretation uint_le2: int_codec 2 True False "\<lambda>_. True" "\<lambda>buf off. readUIntLE buf (Some off) 2" "\<lambda>buf v off. writeUIntLE buf v off 2"
  by unfold_locales (simp_all add: ranges codec)

interpretation uint_le3: int_codec 3 True False "\<lambda>_. True" "\<lambda>buf off. readUIntLE buf (Some off) 3" "\<lambda>buf v off. writeUIntLE buf v off 3"
  by unfold_locales (simp_all add: ranges codec)

interpretation uint_le4: int_codec 4 True False "\<lambda>_. True" "\<lambda>buf off. readUIntLE buf (Some off) 4" "\<lambda>buf v off. writeUIntLE buf v off 4"
  by unfold_locales (simp_all add: ranges codec)

interpretation uint_le5: int_codec 5 True False "\<lambda>_. True" "\<lambda>buf off. readUIntLE buf (Some off) 5" "\<lambda>buf v off. writeUIntLE buf v off 5"
  by unfold_locales (simp_all add: ranges codec)

interpretation uint_le6: int_codec 6 True False "\<lambda>_. True" "\<lambda>buf off. readUIntLE buf (Some off) 6" "\<lambda>buf v off. writeUIntLE buf v off 6"
  by unfold_locales (simp_all add: ranges codec)

interpretation uint_be1: int_codec 1 False False "\<lambda>_. True" "\<lambda>buf off. readUIntBE buf (Some off) 1" "\<lambda>buf v off. writeUIntBE buf v off 1"
  by unfold_locales (simp_all add: ranges codec)

interpretation uint_be2: int_codec 2 False False "\<lambda>_. True" "\<lambda>buf off. readUIntBE buf (Some off) 2" "\<lambda>buf v off. writeUIntBE buf v off 2"
  by unfold_locales (simp_all add: ranges codec)

interpretation uint_be3: int_codec 3 False False "\<lambda>_. True" "\<lambda>buf off. readUIntBE buf (Some off) 3" "\<lambda>buf v off. writeUIntBE buf v off 3"
  by unfold_locales (simp_all add: ranges codec)

interpretation uint_be4: int_codec 4 False False "\<lambda>_. True" "\<lambda>buf off. readUIntBE buf (Some off) 4" "\<lambda>buf v off. writeUIntBE buf v off 4"
  by unfold_locales (simp_all add: ranges codec)

interpretation uint_be5: int_codec 5 False False "\<lambda>_. True" "\<lambda>buf off. readUIntBE buf (Some off) 5" "\<lambda>buf v off. writeUIntBE buf v off 5"
  by unfold_locales (simp_all add: ranges codec)

interpretation uint_be6: int_codec 6 False False "\<lambda>_. True" "\<lambda>buf off. readUIntBE buf (Some off) 6" "\<lambda>buf v off. writeUIntBE buf v off 6"
  by unfold_locales (simp_all add: ranges codec)

interpretation int_le1: int_codec 1 True True "\<lambda>_. True" "\<lambda>buf off. readIntLE buf (Some off) 1" "\<lambda>buf v off. writeIntLE buf v off 1"
  by unfold_locales (simp_all add: ranges codec)

interpretation int_le2: int_codec 2 True True "\<lambda>_. True" "\<lambda>buf off. readIntLE buf (Some off) 2" "\<lambda>buf v off. writeIntLE buf v off 2"
  by unfold_locales (simp_all add: ranges codec)

interpretation int_le3: int_codec 3 True True "\<lambda>_. True" "\<lambda>buf off. readIntLE buf (Some off) 3" "\<lambda>buf v off. writeIntLE buf v off 3"
  by unfold_locales (simp_all add: ranges codec)

interpretation int_le4: int_codec 4 True True "\<lambda>_. True" "\<lambda>buf off. readIntLE buf (Some off) 4" "\<lambda>buf v off. writeIntLE buf v off 4"
  by unfold_locales (simp_all add: ranges codec)

interpretation int_le5: int_codec 5 True True "\<lambda>_. True" "\<lambda>buf off. readIntLE buf (Some off) 5" "\<lambda>buf v off. writeIntLE buf v off 5"
  by unfold_locales (simp_all add: ranges codec)

interpretation int_le6: int_codec 6 True True "\<lambda>_. True" "\<lambda>buf off. readIntLE buf (Some off) 6" "\<lambda>buf v off. writeIntLE buf v off 6"
  by unfold_locales (simp_all add: ranges codec)

interpretation int_be1: int_codec 1 False True "\<lambda>_. True" "\<lambda>buf off. readIntBE buf (Some off) 1" "\<lambda>buf v off. writeIntBE buf v off 1"
  by unfold_locales (simp_all add: ranges codec)

interpretation int_be2: int_codec 2 False True "\<lambda>_. True" "\<lambda>buf off. readIntBE buf (Some off) 2" "\<lambda>buf v off. writeIntBE buf v off 2"
  by unfold_locales (simp_all add: ranges codec)

interpretation int_be3: int_codec 3 False True "\<lambda>_. True" "\<lambda>buf off. readIntBE buf (Some off) 3" "\<lambda>buf v off. writeIntBE buf v off 3"
  by unfold_locales (simp_all add: ranges codec)

interpretation int_be4: int_codec 4 False True "\<lambda>_. True" "\<lambda>buf off. readIntBE buf (Some off) 4" "\<lambda>buf v off. writeIntBE buf v off 4"
  by unfold_locales (simp_all add: ranges codec)

interpretation int_be5: int_codec 5 False True "\<lambda>_. True" "\<lambda>buf off. readIntBE buf (Some off) 5" "\<lambda>buf v off. writeIntBE buf v off 5"
  by unfold_locales (simp_all add: ranges codec)

interpretation int_be6: int_codec 6 False True "\<lambda>_. True" "\<lambda>buf off. readIntBE buf (Some off) 6" "\<lambda>buf v off. writeIntBE buf v off 6"
  by unfold_locales (simp_all add: ranges codec)

end
