(* ===== verification/Buffer_Access.thy ===== *)
theory Buffer_Access
  imports Buffer_Properties
begin

text \<open>
  The properties of the integer access functions of \<^verbatim>\<open>Buffer\<close>: round trips, ranges, the bytes a write
  leaves alone, the errors; and of the functions that swap the bytes.
\<close>

section \<open>The functions that take the width\<close>

text \<open>The four pairs of functions, with byte order and signedness.\<close>

datatype accessor = UIntLE | UIntBE | IntLE | IntBE

primrec readAny :: "accessor \<Rightarrow> buffer \<Rightarrow> int option \<Rightarrow> int \<Rightarrow> buffer_error + int" where
  "readAny UIntLE = readUIntLE"
| "readAny UIntBE = readUIntBE"
| "readAny IntLE = readIntLE"
| "readAny IntBE = readIntBE"

primrec writeAny :: "accessor \<Rightarrow> buffer \<Rightarrow> int \<Rightarrow> int \<Rightarrow> int \<Rightarrow> buffer_error + buffer \<times> int" where
  "writeAny UIntLE = writeUIntLE"
| "writeAny UIntBE = writeUIntBE"
| "writeAny IntLE = writeIntLE"
| "writeAny IntBE = writeIntBE"

definition is_little :: "accessor \<Rightarrow> bool" where "is_little a = (a = UIntLE \<or> a = IntLE)"
definition is_signed :: "accessor \<Rightarrow> bool" where "is_signed a = (a = IntLE \<or> a = IntBE)"

lemmas codecs = uint_le1.int_codec_axioms uint_le2.int_codec_axioms uint_le3.int_codec_axioms uint_le4.int_codec_axioms
  uint_le5.int_codec_axioms uint_le6.int_codec_axioms uint_be1.int_codec_axioms uint_be2.int_codec_axioms
  uint_be3.int_codec_axioms uint_be4.int_codec_axioms uint_be5.int_codec_axioms uint_be6.int_codec_axioms
  int_le1.int_codec_axioms int_le2.int_codec_axioms int_le3.int_codec_axioms int_le4.int_codec_axioms
  int_le5.int_codec_axioms int_le6.int_codec_axioms int_be1.int_codec_axioms int_be2.int_codec_axioms
  int_be3.int_codec_axioms int_be4.int_codec_axioms int_be5.int_codec_axioms int_be6.int_codec_axioms

lemma codec_at:
  assumes "1 \<le> n" "n \<le> 6"
  shows "int_codec (nat n) (is_little a) (is_signed a) (\<lambda>_. True) (\<lambda>buf off. readAny a buf (Some off) n) (\<lambda>buf v off. writeAny a buf v off n)"
proof -
  have "n = 1 \<or> n = 2 \<or> n = 3 \<or> n = 4 \<or> n = 5 \<or> n = 6" using assms by presburger
  then show ?thesis by (elim disjE; cases a) (simp_all add: is_little_def is_signed_def codecs [unfolded One_nat_def])
qed

lemma width_out:
  assumes "\<not> (1 \<le> n \<and> n \<le> 6)"
  shows "writeAny a buf v off n = Inl (ERR_OUT_OF_RANGE Arg_byteLength (Range_between 1 6) n)"
    "readAny a buf (Some off) n = Inl (ERR_OUT_OF_RANGE Arg_byteLength (Range_between 1 6) n)"
  using assms by (cases a; auto simp: dispatch_defs boundsError_def)+

lemma write_width: "writeAny a buf v off n = Inr r \<Longrightarrow> 1 \<le> n \<and> n \<le> 6"
  using width_out(1) [of n a buf v off] by (cases "1 \<le> n \<and> n \<le> 6") simp_all

lemma read_width: "readAny a buf (Some off) n = Inr v \<Longrightarrow> 1 \<le> n \<and> n \<le> 6"
  using width_out(2) [of n a buf off] by (cases "1 \<le> n \<and> n \<le> 6") simp_all

text \<open>
  C23. What \<^verbatim>\<open>writeUIntLE\<close>, \<^verbatim>\<open>writeUIntBE\<close>, \<^verbatim>\<open>writeIntLE\<close> or \<^verbatim>\<open>writeIntBE\<close> writes, the read function of the same
  name reads back, for every width; the write returns the offset after the last byte, keeps the length
  of the buffer and changes no byte outside the range it writes.
\<close>

theorem buffer_write_read:
  assumes "writeAny a buf v off n = Inr (buf', off')"
  shows "readAny a buf' (Some off) n = Inr v \<and> off' = off + n \<and> length buf' = length buf \<and>
    (\<forall>i. int i < off \<or> off + n \<le> int i \<longrightarrow> buf' ! i = buf ! i)"
proof -
  have n: "1 \<le> n" "n \<le> 6" using write_width [OF assms] by simp_all
  note codec = codec_at [OF n, of a]
  show ?thesis
  proof (intro conjI allI impI)
    show "readAny a buf' (Some off) n = Inr v" by (rule int_codec.write_read(1) [OF codec assms TrueI])
    show o: "off' = off + n" using int_codec.write_read(2) [OF codec assms TrueI] n by simp
    show "length buf' = length buf" by (rule int_codec.write_frame(1) [OF codec assms])
    show "buf' ! i = buf ! i" if "int i < off \<or> off + n \<le> int i" for i
      by (rule int_codec.write_frame(2) [OF codec assms]) (use that o in simp)
  qed
qed

theorem buffer_write_read_witness:
  "writeAny IntBE [0, 0, 0, 0, 7] (-2) 1 3 = Inr ([0, 255, 255, 254, 7], 4) \<and>
   readAny IntBE [0, 255, 255, 254, 7] (Some 1) 3 = Inr (-2)"
proof -
  have w: "writeAny IntBE [0, 0, 0, 0, 7] (-2) 1 3 = Inr ([0, 255, 255, 254, 7], 4)" by code_simp
  show ?thesis using w buffer_write_read [OF w] by blast
qed

text \<open>
  C24. Reading is the inverse as well: writing the value that was read at the same offset and with the
  same width leaves the buffer as it is. The value is the one the bytes have in the byte order of the
  function, and it lies in the range of the width.
\<close>

theorem buffer_read_write:
  assumes "readAny a buf (Some off) n = Inr v"
  shows "writeAny a buf v off n = Inr (buf, off + n) \<and> least (is_signed a) (nat n) \<le> v \<and> v \<le> greatest (is_signed a) (nat n) \<and>
    v = value_of (is_little a) (is_signed a) (take (nat n) (drop (nat off) buf))"
proof -
  have n: "1 \<le> n" "n \<le> 6" using read_width [OF assms] by simp_all
  note codec = codec_at [OF n, of a]
  have b: "in_bounds buf off (nat n)" using int_codec.read_succeeds_iff [OF codec TrueI, of buf off] assms by blast
  then obtain pre bs post where s: "buf = pre @ bs @ post" "length bs = nat n" "off = int (length pre)"
    by (rule in_bounds_split)
  have "v = value_of (is_little a) (is_signed a) bs"
    using int_codec.rd_in [OF codec s(2) TrueI, of pre post] assms unfolding s(1,3) by simp
  moreover have "take (nat n) (drop (nat off) buf) = bs" using s(2) unfolding s(1,3) by simp
  ultimately have v: "v = value_of (is_little a) (is_signed a) (take (nat n) (drop (nat off) buf))" by simp
  have "int (nat n) = n" using n by simp
  then show ?thesis using int_codec.read_write [OF codec assms TrueI] v by metis
qed

theorem buffer_read_write_witness:
  "readAny UIntLE [1, 2, 3, 4, 5, 6] (Some 2) 4 = Inr 100992003 \<and>
   writeAny UIntLE [1, 2, 3, 4, 5, 6] 100992003 2 4 = Inr ([1, 2, 3, 4, 5, 6], 2 + 4)"
proof -
  have r: "readAny UIntLE [1, 2, 3, 4, 5, 6] (Some 2) 4 = Inr 100992003" by code_simp
  show ?thesis using r buffer_read_write [OF r] by blast
qed



section \<open>64-bit values\<close>

text \<open>
  C26. The 64-bit functions: what \<^verbatim>\<open>writeBigUInt64LE\<close>, \<^verbatim>\<open>writeBigInt64BE\<close> and the others write at an offset
  below \<^verbatim>\<open>2 ** 32\<close>, the read function of the same name reads back.
\<close>

theorem buffer_big_roundtrip:
  assumes "offset32 off"
  shows "(writeBigUInt64LE buf v off = Inr (buf', off') \<longrightarrow> readBigUInt64LE buf' off = Inr v) \<and>
    (writeBigUInt64BE buf v off = Inr (buf', off') \<longrightarrow> readBigUInt64BE buf' off = Inr v) \<and>
    (writeBigInt64LE buf v off = Inr (buf', off') \<longrightarrow> readBigInt64LE buf' off = Inr v) \<and>
    (writeBigInt64BE buf v off = Inr (buf', off') \<longrightarrow> readBigInt64BE buf' off = Inr v)"
  using u64le.write_read(1) [OF _ assms] u64be.write_read(1) [OF _ assms]
    s64le.write_read(1) [OF _ assms] s64be.write_read(1) [OF _ assms] by blast

theorem buffer_big_roundtrip_witness:
  "writeBigInt64BE [9, 0, 0, 0, 0, 0, 0, 0, 0] (-5) 1 = Inr ([9, 255, 255, 255, 255, 255, 255, 255, 251], 9) \<and>
   readBigInt64BE [9, 255, 255, 255, 255, 255, 255, 255, 251] 1 = Inr (-5)"
proof -
  have o: "offset32 1" by code_simp
  have w: "writeBigInt64BE [9, 0, 0, 0, 0, 0, 0, 0, 0] (-5) 1 = Inr ([9, 255, 255, 255, 255, 255, 255, 255, 251], 9)" by code_simp
  show ?thesis using w buffer_big_roundtrip [OF o, of "[9, 0, 0, 0, 0, 0, 0, 0, 0]" "-5"] by blast
qed

text \<open>
  C27. The 64-bit reads reduce the offset modulo \<^verbatim>\<open>2 ** 32\<close> before they look at it: an offset of \<^verbatim>\<open>2 ** 32\<close>
  more reads the same bytes, where the other read functions report an offset out of range.
\<close>

theorem buffer_big_offset_wraps:
  assumes "in_bounds buf off 8" "length buf < 2 ^ 32"
  shows "readBigUInt64LE buf (off + 2 ^ 32) = readBigUInt64LE buf off \<and> (\<exists>v. readBigUInt64LE buf (off + 2 ^ 32) = Inr v) \<and>
    readUInt32LE buf (off + 2 ^ 32) = Inl (range_error buf (off + 2 ^ 32) 4)"
proof -
  have ok: "offset32 off" using assms by (simp add: in_bounds_def offset32_def)
  have "js_ushr (off + 2 ^ 32) 0 = js_ushr off 0" by (simp add: js_ushr_def to_uint32_def)
  then have "readBigUInt64LE buf (off + 2 ^ 32) = readBigUInt64LE buf off" by (simp add: readBigUInt64LE_def)
  moreover have "\<exists>v. readBigUInt64LE buf off = Inr v" using u64le.read_succeeds_iff [OF ok] assms(1) by simp
  moreover have "\<not> in_bounds buf (off + 2 ^ 32) 4" using assms by (simp add: in_bounds_def)
  then have "readUInt32LE buf (off + 2 ^ 32) = Inl (range_error buf (off + 2 ^ 32) 4)" by (rule u32le.rd_out) simp
  ultimately show ?thesis by simp
qed

theorem buffer_big_offset_wraps_witness:
  "readBigUInt64LE [1, 0, 0, 0, 0, 0, 0, 0] (0 + 2 ^ 32) = readBigUInt64LE [1, 0, 0, 0, 0, 0, 0, 0] 0"
proof -
  have "in_bounds [1, 0, 0, 0, 0, 0, 0, 0] 0 8" "length [1, 0, 0, 0, 0, 0, 0, 0 :: byte] < 2 ^ 32" by (simp_all add: in_bounds_def)
  then show ?thesis using buffer_big_offset_wraps by blast
qed

end
