(* ===== verification/Buffer_Swap.thy ===== *)
theory Buffer_Swap
  imports Buffer_Access
begin

text \<open>
  The functions that reverse the byte order of a whole buffer, \<^verbatim>\<open>swap16\<close>, \<^verbatim>\<open>swap32\<close> and \<^verbatim>\<open>swap64\<close>. The
  three loops meet one contract: a step reverses the bytes of one element and leaves the others alone.
\<close>

section \<open>What the loops compute\<close>

function rev_chunks :: "nat \<Rightarrow> buffer \<Rightarrow> buffer" where
  "rev_chunks n bs = (if n = 0 \<or> bs = [] then [] else rev (take n bs) @ rev_chunks n (drop n bs))"
  by pat_completeness auto
termination by (relation "measure (\<lambda>(n, bs). length bs)") auto

declare rev_chunks.simps [simp del]

lemma rev_chunks_Nil [simp]: "rev_chunks n [] = []"
  by (simp add: rev_chunks.simps)

lemma rev_chunks_append: "length c = n \<Longrightarrow> 0 < n \<Longrightarrow> rev_chunks n (c @ bs) = rev c @ rev_chunks n bs"
  by (subst rev_chunks.simps) auto

text \<open>Induction over the elements of a buffer whose length is a multiple of the width.\<close>

lemma chunks_induct:
  assumes "length bs mod n = 0" "0 < n" "P []"
    "\<And>c bs. length c = n \<Longrightarrow> length bs mod n = 0 \<Longrightarrow> P bs \<Longrightarrow> P (c @ bs)"
  shows "P bs"
  using assms(1)
proof (induction "length bs" arbitrary: bs rule: less_induct)
  case less
  show ?case
  proof (cases "bs = []")
    case False
    then have l: "n \<le> length bs" using less.prems by (metis dvd_imp_le length_greater_0_conv mod_0_imp_dvd)
    then have m: "length (drop n bs) mod n = 0" using less.prems by (simp add: le_mod_geq)
    have "P (drop n bs)" using l False assms(2) m by (intro less.hyps) simp_all
    then have "P (take n bs @ drop n bs)" using l m by (intro assms(4)) simp_all
    then show ?thesis by simp
  qed (simp add: assms(3))
qed

lemma length_rev_chunks:
  assumes "length bs mod n = 0" "0 < n"
  shows "length (rev_chunks n bs) = length bs"
  using assms by (rule chunks_induct) (use assms in \<open>simp_all add: rev_chunks_append\<close>)

lemma rev_chunks_involution:
  assumes "length bs mod n = 0" "0 < n"
  shows "rev_chunks n (rev_chunks n bs) = bs"
  using assms by (rule chunks_induct) (use assms in \<open>simp_all add: rev_chunks_append\<close>)

lemma rev_chunks_prefix:
  assumes "length pre mod n = 0" "0 < n"
  shows "rev_chunks n (pre @ bs) = rev_chunks n pre @ rev_chunks n bs"
  using assms by (rule chunks_induct) (use assms in \<open>simp_all add: rev_chunks_append\<close>)

section \<open>The contract of a step\<close>

locale element_swap =
  fixes n :: nat and step :: "buffer \<Rightarrow> nat \<Rightarrow> buffer"
  assumes wide: "0 < n"
    and step_reverses: "length c = n \<Longrightarrow> step (pre @ c @ post) (length pre) = pre @ rev c @ post"
begin

lemma loop_reverses:
  assumes "length bs mod n = 0"
  shows "swap_loop n step (pre @ bs) (length pre) (length (pre @ bs)) = pre @ rev_chunks n bs"
proof -
  have "\<forall>pre. swap_loop n step (pre @ bs) (length pre) (length (pre @ bs)) = pre @ rev_chunks n bs"
    using assms wide
  proof (rule chunks_induct)
    show "\<forall>pre. swap_loop n step (pre @ []) (length pre) (length (pre @ [])) = pre @ rev_chunks n []"
      by (simp add: swap_loop.simps)
    fix c bs :: buffer
    assume c: "length c = n"
      and IH: "\<forall>pre. swap_loop n step (pre @ bs) (length pre) (length (pre @ bs)) = pre @ rev_chunks n bs"
    show "\<forall>pre. swap_loop n step (pre @ c @ bs) (length pre) (length (pre @ c @ bs)) = pre @ rev_chunks n (c @ bs)"
    proof
      fix pre :: buffer
      have "swap_loop n step (pre @ c @ bs) (length pre) (length (pre @ c @ bs)) =
          swap_loop n step ((pre @ rev c) @ bs) (length (pre @ rev c)) (length ((pre @ rev c) @ bs))"
        by (subst swap_loop.simps) (use c wide step_reverses in simp)
      also have "\<dots> = (pre @ rev c) @ rev_chunks n bs" using IH by blast
      finally show "swap_loop n step (pre @ c @ bs) (length pre) (length (pre @ c @ bs)) = pre @ rev_chunks n (c @ bs)"
        using c wide by (simp add: rev_chunks_append)
    qed
  qed
  then show ?thesis by blast
qed

lemma whole_buffer: "length b mod n = 0 \<Longrightarrow> swap_loop n step b 0 (length b) = rev_chunks n b"
  using loop_reverses [of b "[]"] by simp

end

lemma swap_append:
  "swap (pre @ b # ms @ c # post) (length pre) (length pre + Suc (length ms)) = pre @ c # ms @ b # post"
  by (simp add: swap_def Let_def nth_append list_update_append)

interpretation swap2: element_swap 2 "\<lambda>b i. swap b i (i + 1)"
proof
  fix c pre post :: buffer
  assume "length c = 2"
  then obtain a b where "c = [a, b]" by (auto simp: numeral_2_eq_2 length_Suc_conv)
  then show "swap (pre @ c @ post) (length pre) (length pre + 1) = pre @ rev c @ post"
    using swap_append [of pre a "[]" b post] by simp
qed simp

interpretation swap4: element_swap 4 "\<lambda>b i. swap (swap b i (i + 3)) (i + 1) (i + 2)"
proof
  fix c pre post :: buffer
  assume "length c = 4"
  then obtain x0 x1 x2 x3 where "c = [x0, x1, x2, x3]" by (auto simp: eval_nat_numeral length_Suc_conv)
  then show "swap (swap (pre @ c @ post) (length pre) (length pre + 3)) (length pre + 1) (length pre + 2) = pre @ rev c @ post"
    using swap_append [of pre x0 "[x1, x2]" x3 post] swap_append [of "pre @ [x3]" x1 "[]" x2 "x0 # post"]
    by (simp add: eval_nat_numeral)
qed simp

interpretation swap8: element_swap 8
  "\<lambda>b i. swap (swap (swap (swap b i (i + 7)) (i + 1) (i + 6)) (i + 2) (i + 5)) (i + 3) (i + 4)"
proof
  fix c pre post :: buffer
  assume "length c = 8"
  then obtain x0 x1 x2 x3 x4 x5 x6 x7 where "c = [x0, x1, x2, x3, x4, x5, x6, x7]"
    by (auto simp: eval_nat_numeral length_Suc_conv)
  then show "swap (swap (swap (swap (pre @ c @ post) (length pre) (length pre + 7)) (length pre + 1) (length pre + 6))
      (length pre + 2) (length pre + 5)) (length pre + 3) (length pre + 4) = pre @ rev c @ post"
    using swap_append [of pre x0 "[x1, x2, x3, x4, x5, x6]" x7 post]
      swap_append [of "pre @ [x7]" x1 "[x2, x3, x4, x5]" x6 "x0 # post"]
      swap_append [of "pre @ [x7, x6]" x2 "[x3, x4]" x5 "x1 # x0 # post"]
      swap_append [of "pre @ [x7, x6, x5]" x3 "[]" x4 "x2 # x1 # x0 # post"]
    by (simp add: eval_nat_numeral)
qed simp

section \<open>Properties\<close>

lemma swap_chunks:
  "swap16 b = (if length b mod 2 = 0 then Inr (rev_chunks 2 b) else Inl (RangeError_size 16))"
  "swap32 b = (if length b mod 4 = 0 then Inr (rev_chunks 4 b) else Inl (RangeError_size 32))"
  "swap64 b = (if length b mod 8 = 0 then Inr (rev_chunks 8 b) else Inl (RangeError_size 64))"
  using swap2.whole_buffer [of b] swap4.whole_buffer [of b] swap8.whole_buffer [of b]
  by (simp_all add: swap16_def swap32_def swap64_def)

text \<open>
  C28. \<^verbatim>\<open>swap16\<close>, \<^verbatim>\<open>swap32\<close> and \<^verbatim>\<open>swap64\<close> are their own inverses on a buffer whose length is a multiple of
  the element size, and raise the \<^verbatim>\<open>RangeError\<close> on every other buffer.
\<close>

theorem buffer_swap_involution:
  "(if even (length b) then \<exists>c. swap16 b = Inr c \<and> length c = length b \<and> swap16 c = Inr b else swap16 b = Inl (RangeError_size 16)) \<and>
   (if 4 dvd length b then \<exists>c. swap32 b = Inr c \<and> length c = length b \<and> swap32 c = Inr b else swap32 b = Inl (RangeError_size 32)) \<and>
   (if 8 dvd length b then \<exists>c. swap64 b = Inr c \<and> length c = length b \<and> swap64 c = Inr b else swap64 b = Inl (RangeError_size 64))"
  by (simp add: swap_chunks rev_chunks_involution length_rev_chunks dvd_eq_mod_eq_0)

lemma swapped_element:
  assumes "off mod n = 0" "0 < n" "length b mod n = 0" "off < length b"
  obtains pre c post where "b = pre @ c @ post" "length c = n" "length pre = off"
    "rev_chunks n b = rev_chunks n pre @ rev c @ rev_chunks n post" "length (rev_chunks n pre) = off"
proof -
  have "n dvd length b - off" "0 < length b - off" using assms by (auto intro: dvd_diff_nat)
  then have l: "off + n \<le> length b" using dvd_imp_le [of n "length b - off"] by linarith
  define pre c post where d: "pre = take off b" "c = take n (drop off b)" "post = drop (off + n) b"
  have b: "b = pre @ c @ post" unfolding d by (metis append_take_drop_id drop_drop add.commute)
  have len: "length pre = off" "length c = n" using l by (simp_all add: d)
  have "rev_chunks n b = rev_chunks n pre @ rev c @ rev_chunks n post"
    using rev_chunks_prefix [of pre n "c @ post"] rev_chunks_append [of c n post] assms(1,2) len unfolding b by simp
  then show thesis using that b len length_rev_chunks [of pre n] assms(1,2) by simp
qed

lemma value_of_rev: "value_of little sg (rev c) = value_of (\<not> little) sg c"
  by (simp add: value_of_def Let_def)

text \<open>
  C29. Swapping changes the byte order of every element: after \<^verbatim>\<open>swap16\<close>, \<^verbatim>\<open>swap32\<close> or \<^verbatim>\<open>swap64\<close>, the
  little-endian read at the offset of an element gives what the big-endian read gave before.
\<close>

theorem buffer_swap_read:
  assumes "int off < int (length b)" "length b < 2 ^ 32"
  shows "(swap16 b = Inr c \<and> off mod 2 = 0 \<longrightarrow> readUInt16LE c (int off) = readUInt16BE b (int off)) \<and>
    (swap32 b = Inr c \<and> off mod 4 = 0 \<longrightarrow> readUInt32LE c (int off) = readUInt32BE b (int off)) \<and>
    (swap64 b = Inr c \<and> off mod 8 = 0 \<longrightarrow> readBigUInt64LE c (int off) = readBigUInt64BE b (int off))"
proof (intro conjI impI)
  have o: "offset32 (int off)" using assms by (simp add: offset32_def)
  have l: "off < length b" using assms(1) by simp
  show "readUInt16LE c (int off) = readUInt16BE b (int off)" if s: "swap16 b = Inr c \<and> off mod 2 = 0"
  proof -
    have e: "c = rev_chunks 2 b" "length b mod 2 = 0" using s by (simp_all add: swap_chunks split: if_splits)
    obtain pre d post where p: "b = pre @ d @ post" "length d = 2" "length pre = off"
      "rev_chunks 2 b = rev_chunks 2 pre @ rev d @ rev_chunks 2 post" "length (rev_chunks 2 pre) = off"
      by (rule swapped_element [OF _ _ e(2) l]) (use s in auto)
    show ?thesis unfolding e(1) p(4) unfolding p(1)
      using u16le.rd_in [of "rev d" "rev_chunks 2 pre"] u16be.rd_in [of d pre post] p by (simp add: value_of_rev)
  qed
  show "readUInt32LE c (int off) = readUInt32BE b (int off)" if s: "swap32 b = Inr c \<and> off mod 4 = 0"
  proof -
    have e: "c = rev_chunks 4 b" "length b mod 4 = 0" using s by (simp_all add: swap_chunks split: if_splits)
    obtain pre d post where p: "b = pre @ d @ post" "length d = 4" "length pre = off"
      "rev_chunks 4 b = rev_chunks 4 pre @ rev d @ rev_chunks 4 post" "length (rev_chunks 4 pre) = off"
      by (rule swapped_element [OF _ _ e(2) l]) (use s in auto)
    show ?thesis unfolding e(1) p(4) unfolding p(1)
      using u32le.rd_in [of "rev d" "rev_chunks 4 pre"] u32be.rd_in [of d pre post] p by (simp add: value_of_rev)
  qed
  show "readBigUInt64LE c (int off) = readBigUInt64BE b (int off)" if s: "swap64 b = Inr c \<and> off mod 8 = 0"
  proof -
    have e: "c = rev_chunks 8 b" "length b mod 8 = 0" using s by (simp_all add: swap_chunks split: if_splits)
    obtain pre d post where p: "b = pre @ d @ post" "length d = 8" "length pre = off"
      "rev_chunks 8 b = rev_chunks 8 pre @ rev d @ rev_chunks 8 post" "length (rev_chunks 8 pre) = off"
      by (rule swapped_element [OF _ _ e(2) l]) (use s in auto)
    show ?thesis unfolding e(1) p(4) unfolding p(1)
      using u64le.rd_in [of "rev d" "rev_chunks 8 pre"] u64be.rd_in [of d pre post] p o by (simp add: value_of_rev)
  qed
qed

theorem buffer_swap_read_witness:
  "swap32 [1, 2, 3, 4, 5, 6, 7, 8] = Inr [4, 3, 2, 1, 8, 7, 6, 5] \<and>
   readUInt32LE [4, 3, 2, 1, 8, 7, 6, 5] (int 4) = readUInt32BE [1, 2, 3, 4, 5, 6, 7, 8] (int 4)"
proof -
  have s: "swap32 [1, 2, 3, 4, 5, 6, 7, 8] = Inr [4, 3, 2, 1, 8, 7, 6, 5]" by code_simp
  have b: "int 4 < int (length [1, 2, 3, 4, 5, 6, 7, 8 :: byte])" "length [1, 2, 3, 4, 5, 6, 7, 8 :: byte] < 2 ^ 32" by simp_all
  have m: "(4 :: nat) mod 4 = 0" by simp
  show ?thesis by (rule conjI [OF s mp [OF conjunct1 [OF conjunct2 [OF buffer_swap_read [OF b]]] conjI [OF s m]]])
qed

end
