(* ===== verification/Spec2Isabelle.thy ===== *)
theory Spec2Isabelle
  imports Prelude Queues Fixed_Queue Streams_Common Writable_Properties Path_Posix_Components Path_Win32_Resolve Buffer_Swap
begin

text \<open>
  A verification library for the JavaScript code of the Deno runtime (\<^verbatim>\<open>src/ext\<close>): the streams of the
  web platform, the path functions and the buffers of the node compatibility layer, and the queues they
  stand on. The parts are independent programs that the runtime loads as modules; they meet in the
  queue a stream controller keeps, in the strings and in the integers of JavaScript.

  \<^bold>\<open>Shared vocabulary.\<close> \<^verbatim>\<open>Prelude\<close>: values, numbers with \<^verbatim>\<open>NaN\<close> and the infinities, \<^verbatim>\<open>assert\<close> of
  \<^verbatim>\<open>ext/web/00_infra.js\<close>. A computation of option type is \<^term>\<open>None\<close> when an internal assertion fails or
  \<^verbatim>\<open>undefined\<close> is called. \<^verbatim>\<open>Js_String\<close>: strings are lists of UTF-16 code units, indices are integers, and
  \<^verbatim>\<open>slice\<close>, \<^verbatim>\<open>charCodeAt\<close>, \<^verbatim>\<open>lastIndexOf\<close> are total as in the language. \<^verbatim>\<open>Js_Number\<close>: the bitwise
  operators on 32 bits.

  \<^bold>\<open>Queues.\<close> \<^verbatim>\<open>Queues\<close> models the linked list \<^verbatim>\<open>Queue\<close> of \<^verbatim>\<open>ext/web/06_streams.js\<close> over a store of
  nodes, and states what a client relies on as the locale \<open>fifo_queue\<close>; \<^verbatim>\<open>Fixed_Queue\<close> models
  \<^verbatim>\<open>FixedQueue\<close> and \<^verbatim>\<open>FixedCircularBuffer\<close> of \<^verbatim>\<open>ext/node/polyfills/internal/fixed_queue.ts\<close>, with the ring
  of 2048 cells of the source. Both are interpretations of the locale, so that any run of either is the
  run on a list.

  \<^bold>\<open>Writable streams.\<close> \<^verbatim>\<open>Streams_Common\<close>: \<^verbatim>\<open>Deferred\<close> (a heap of promises that only grows), the queue
  with sizes of the controllers over the linked \<^verbatim>\<open>Queue\<close> and, refined by it, over a list, the two
  functions that read a queuing strategy. \<^verbatim>\<open>Writable_Stream\<close>: one record for the stream, its
  controller, all writers and the promises, and one definition for each operation of the source from
  \<^verbatim>\<open>acquireWritableStreamDefaultWriter\<close> to \<^verbatim>\<open>writableStreamUpdateBackpressure\<close> and for the methods of the
  three classes. The sink is a parameter, a record of callbacks that may call every method of the
  stream again. \<^verbatim>\<open>Writable_Invariant\<close> and \<^verbatim>\<open>Writable_Operations\<close>: the invariant and that every
  operation and every promise reaction keeps it, under the contract \<open>sink_contract\<close> of the callbacks,
  which re-entrant programs of every nesting depth meet (\<open>nested_sink\<close>; the depth is the bound on the
  re-entrancy, and the theorems hold for each depth). \<^verbatim>\<open>Writable_Properties\<close>: what a user sees for
  every order of calls and settlements: no assertion fails, the sink receives the chunks in order, no
  promise is forgotten, the ready promise tells the backpressure, settled is final.

  \<^bold>\<open>Paths.\<close> \<^verbatim>\<open>Path_Util\<close> (\<^verbatim>\<open>_util.ts\<close>, \<^verbatim>\<open>_constants.ts\<close>), \<^verbatim>\<open>Path_Posix\<close> (\<^verbatim>\<open>_posix.ts\<close>) and
  \<^verbatim>\<open>Path_Win32\<close> (\<^verbatim>\<open>_win32.ts\<close>, all under \<^verbatim>\<open>ext/node/polyfills/path\<close>) have a definition for each exported
  function and for each of its loops, with the indices of the source; the working directory, the
  working directories of the drives and \<^verbatim>\<open>toLowerCase\<close> are parameters. The loops recurse on the index,
  so the functions are total and no fuel is needed. \<^verbatim>\<open>Path_Util\<close> shows that the scan of
  \<^verbatim>\<open>normalizeString\<close> computes a stack of segments (locale \<open>path_separator\<close>, for both separators);
  \<^verbatim>\<open>Path_Segments\<close> has the laws of splitting and joining. \<^verbatim>\<open>Path_Posix_Properties\<close> and
  \<^verbatim>\<open>Path_Posix_Relative\<close>: \<^verbatim>\<open>normalize\<close> is idempotent, \<^verbatim>\<open>resolve\<close> is a sequence of \<^verbatim>\<open>cd\<close> commands and
  \<^verbatim>\<open>relative\<close> is its inverse. \<^verbatim>\<open>Path_Components\<close> and \<^verbatim>\<open>Path_Posix_Components\<close>: the scans from the end,
  \<^verbatim>\<open>dirname\<close>, \<^verbatim>\<open>basename\<close>, \<^verbatim>\<open>extname\<close>, \<^verbatim>\<open>parse\<close> and \<^verbatim>\<open>format\<close>, related to each other and to one
  decomposition of a path. \<^verbatim>\<open>Path_Win32_Properties\<close> and \<^verbatim>\<open>Path_Win32_Resolve\<close>: roots and devices,
  \<^verbatim>\<open>normalize\<close> and \<^verbatim>\<open>resolve\<close>.

  \<^bold>\<open>Buffers.\<close> \<^verbatim>\<open>Buffer_Ints\<close> has every function of \<^verbatim>\<open>ext/node/polyfills/internal/buffer.mjs\<close> that reads
  or writes an integer, and the byte swaps; a buffer is a list of bytes of eight bits.
  \<^verbatim>\<open>Buffer_Codec\<close> states the contract of a pair of functions of one width (locale \<open>int_codec\<close>) and
  derives the round trips once; \<^verbatim>\<open>Buffer_Reads\<close> and \<^verbatim>\<open>Buffer_Properties\<close> show that each pair meets it
  (38 interpretations); \<^verbatim>\<open>Buffer_Access\<close> and \<^verbatim>\<open>Buffer_Swap\<close> have the properties.

  \<^bold>\<open>Not modelled.\<close> Rounding of doubles (sizes are exact, offsets and values are integers). The checks of
  argument types (\<^verbatim>\<open>assertPath\<close>, \<^verbatim>\<open>validateNumber\<close>, the webidl converters): the models are typed. In
  \<^verbatim>\<open>06_streams.js\<close>, readable and transform streams, piping and the resource-backed streams. In
  \<^verbatim>\<open>buffer.mjs\<close>, floating point access, string encodings and the search functions, which call native
  operations. The Rust code of the command line, the runtime and the extensions, the bundled TypeScript
  compiler and the other extensions (crypto, fetch, http, webgpu, kv and the rest), which are
  bindings to native operations.
\<close>

end
